theory Spec2Isabelle
  imports Main "HOL-Library.Multiset"
begin

section \<open>Strings of the script\<close>

text \<open>
  The script \<^verbatim>\<open>pokeapi.js\<close> normalises what the user types and what the API answers
  with \<^verbatim>\<open>toLowerCase()\<close> and \<^verbatim>\<open>trim()\<close>. A JavaScript string is modelled as a
  \<^typ>\<open>string\<close> whose characters are the code points below 256 (Latin-1), which covers
  every identifier of the API. In that range \<^verbatim>\<open>toLowerCase\<close> moves A-Z and the
  accented capitals 192-222 (the multiplication sign 215 apart) up by 32 and leaves every
  other character alone, and \<^verbatim>\<open>trim\<close> removes from both ends the characters
  9-13, the space 32 and the no-break space 160.
\<close>

definition isUpper :: "char \<Rightarrow> bool" where
  "isUpper c = (let n = (of_char c :: nat)
                in (65 \<le> n \<and> n \<le> 90) \<or> (192 \<le> n \<and> n \<le> 222 \<and> n \<noteq> 215))"

definition lowerChar :: "char \<Rightarrow> char" where
  "lowerChar c = (if isUpper c then char_of ((of_char c :: nat) + 32) else c)"

definition toLowerCase :: "string \<Rightarrow> string" where
  "toLowerCase s = map lowerChar s"

definition isWhite :: "char \<Rightarrow> bool" where
  "isWhite c = (let n = (of_char c :: nat)
                in (9 \<le> n \<and> n \<le> 13) \<or> n = 32 \<or> n = 160)"

definition trimStart :: "string \<Rightarrow> string" where
  "trimStart s = dropWhile isWhite s"

definition trimEnd :: "string \<Rightarrow> string" where
  "trimEnd s = rev (dropWhile isWhite (rev s))"

definition trim :: "string \<Rightarrow> string" where
  "trim s = trimEnd (trimStart s)"

text \<open>
  \<^verbatim>\<open>String(n)\<close> for a non-negative integer below \<^verbatim>\<open>1e21\<close>: its decimal digits,
  most significant first. From \<^verbatim>\<open>1e21\<close> on JavaScript writes a number with an
  exponent; the ids of the API are far below, and nothing is stated here of an id that is
  not.
\<close>

definition digitChar :: "nat \<Rightarrow> char" where
  "digitChar d = char_of (48 + d)"

fun String_nat :: "nat \<Rightarrow> string" where
  "String_nat n = (if n < 10 then [digitChar n]
                   else String_nat (n div 10) @ [digitChar (n mod 10)])"

declare String_nat.simps [simp del]

section \<open>Entity details and the cache\<close>

text \<open>
  What the script reads of a detail record of the API: \<^verbatim>\<open>id\<close> (written \<open>id'\<close>
  here), \<^verbatim>\<open>name\<close> and the names \<^verbatim>\<open>types[i].type.name\<close>.
\<close>

record detail =
  id' :: nat
  name :: string
  types :: "string list"

text \<open>
  The body of a response that is ok is whatever JSON the server sent, and the script
  reads it unchecked. \<open>Detail d\<close> is an object as the detail endpoint answers it: it has
  a numeric id, a string name, an array of types, and the abilities and stats that the
  card builder reads. \<open>Other x\<close> is any other value that is truthy (an object that lacks
  some of these, as the listing that the API answers for an empty path, or an array, or a
  number): \<open>other_id\<close> is its id if it has a numeric one, \<open>other_name\<close> its name if it
  has a string one, \<open>other_types\<close> the names of its types if \<^verbatim>\<open>types\<close> is an array
  of type entries, and \<open>other_card\<close> tells whether the rest of what \<^verbatim>\<open>buildCard\<close>
  reads (the abilities and the stats) is as it reads it.
\<close>

record other =
  other_id :: "nat option"
  other_name :: "string option"
  other_types :: "string list option"
  other_card :: bool

datatype body = Detail detail | Other other

text \<open>What the script reads of a body: \<^verbatim>\<open>id\<close>, \<^verbatim>\<open>name\<close> and \<^verbatim>\<open>types\<close>.\<close>

fun idOf :: "body \<Rightarrow> nat option" where
  "idOf (Detail d) = Some (id' d)"
| "idOf (Other x) = other_id x"

fun nameOf :: "body \<Rightarrow> string option" where
  "nameOf (Detail d) = Some (name d)"
| "nameOf (Other x) = other_name x"

fun typesOf :: "body \<Rightarrow> string list option" where
  "typesOf (Detail d) = Some (types d)"
| "typesOf (Other x) = other_types x"

text \<open>
  The JSON of a response: \<open>Null\<close> is \<^verbatim>\<open>null\<close>, on which reading a property throws;
  \<open>Falsy\<close> is one of \<^verbatim>\<open>false\<close>, \<^verbatim>\<open>0\<close> and the empty string, which have no
  property; \<open>Object b\<close> is any other value.
\<close>

datatype reply = Null | Falsy | Object body

text \<open>
  A failure inside a \<^verbatim>\<open>try\<close>: a failed \<^verbatim>\<open>fetchJSON\<close> (a response that is not ok,
  or a transport failure), or the \<^verbatim>\<open>TypeError\<close> of reading a property of
  \<^verbatim>\<open>null\<close> or \<^verbatim>\<open>undefined\<close> or of calling what is not a function.
\<close>

datatype error = HttpError nat | NetworkError | TypeError

text \<open>
  The cache maps a key to the value stored under it: \<open>Some b\<close> for a truthy value,
  \<open>None\<close> for \<^verbatim>\<open>null\<close> or a falsy value. The values that \<^verbatim>\<open>fetchDetailSafely\<close>
  returns are of the same kind, \<open>None\<close> being the script's null.
\<close>

type_synonym cache = "string \<rightharpoonup> body option"

text \<open>
  \<^verbatim>\<open>fetchDetailSafely\<close> (lines 183-195) runs up to its \<^verbatim>\<open>await\<close> as soon as it is
  called: it normalises the key and asks the cache. Its promise is then either settled
  already with the cached value, or waits for the request of that key.
\<close>

datatype pending = Ready "body option" | Awaiting string

definition fetchDetailSafely_call :: "cache \<Rightarrow> string \<Rightarrow> pending" where
  "fetchDetailSafely_call c nameOrId =
     (let key = trim (toLowerCase nameOrId)
      in case c key of Some v \<Rightarrow> Ready v | None \<Rightarrow> Awaiting key)"

text \<open>\<^verbatim>\<open>String(data.id)\<close>: the digits of the id, or \<^verbatim>\<open>'undefined'\<close> without one.\<close>

fun String_id :: "nat option \<Rightarrow> string" where
  "String_id None = ''undefined''"
| "String_id (Some n) = String_nat n"

text \<open>
  The rest of \<^verbatim>\<open>fetchDetailSafely\<close>, once \<^verbatim>\<open>fetchJSON\<close> has settled. A failed
  request goes to the \<^verbatim>\<open>catch\<close> with the cache untouched. Otherwise the three
  statements of lines 188-190 run in their order, each inside the \<^verbatim>\<open>try\<close>:
  \<^verbatim>\<open>cache.set(key, data)\<close> stores whatever came; \<^verbatim>\<open>data.id\<close> throws on
  \<^verbatim>\<open>null\<close>, and otherwise \<^verbatim>\<open>cache.set(String(data.id), data)\<close> stores the body a
  second time; \<^verbatim>\<open>data.name.toLowerCase()\<close> throws unless the name is a string, and
  otherwise the body is stored a third time and returned. A throw is caught and null is
  returned, with what was stored before it left in the cache.
\<close>

definition fetchDetailSafely_settle :: "cache \<Rightarrow> string \<Rightarrow> error + reply \<Rightarrow> cache \<times> body option" where
  "fetchDetailSafely_settle c key resp =
     (case resp of
        Inl e \<Rightarrow> (c, None)
      | Inr Null \<Rightarrow> (c(key \<mapsto> None), None)
      | Inr Falsy \<Rightarrow> (c(key \<mapsto> None, ''undefined'' \<mapsto> None), None)
      | Inr (Object data) \<Rightarrow>
          (let c1 = c(key \<mapsto> Some data);
               c2 = c1(String_id (idOf data) \<mapsto> Some data)
           in case nameOf data of
                None \<Rightarrow> (c2, None)
              | Some nm \<Rightarrow> (c2(toLowerCase nm \<mapsto> Some data), Some data)))"

text \<open>
  The whole call when it is awaited on its own: the cache afterwards, the value returned
  and the keys requested from the API. \<open>resp\<close> is how the request settles if one is made.
\<close>

definition fetchDetailSafely :: "cache \<Rightarrow> string \<Rightarrow> error + reply \<Rightarrow> cache \<times> body option \<times> string list" where
  "fetchDetailSafely c nameOrId resp =
     (case fetchDetailSafely_call c nameOrId of
        Ready v \<Rightarrow> (c, v, [])
      | Awaiting key \<Rightarrow>
          (let (c', v) = fetchDetailSafely_settle c key resp in (c', v, [key])))"

section \<open>The pool of \<^verbatim>\<open>fetchManyDetails\<close>\<close>

definition CONCURRENCY :: int where
  "CONCURRENCY = 12"

text \<open>
  A worker of the pool (the async function of lines 212-222) that is suspended at its
  \<^verbatim>\<open>await\<close>: either the request of its key is outstanding, or the promise of
  \<^verbatim>\<open>fetchDetailSafely\<close> has its value and the worker waits to be resumed.
\<close>

datatype task = Waiting string string | Settled string "body option"

text \<open>
  The variables of one call of \<^verbatim>\<open>fetchManyDetails\<close> (\<^verbatim>\<open>queue\<close>, \<^verbatim>\<open>results\<close>,
  \<^verbatim>\<open>active\<close>), its suspended workers, the cache of the page, and the value the promise
  was resolved with, if it was. Three fields record what happened and are never read by
  the code: \<open>sent\<close> lists the keys requested from the API, \<open>returned\<close> lists the calls of
  \<^verbatim>\<open>fetchDetailSafely\<close> that have returned with their argument and value, and \<open>peak\<close> is
  the highest value \<^verbatim>\<open>active\<close> has held.
\<close>

record pool =
  queue :: "string list"
  results :: "body list"
  active :: int
  workers :: "task list"
  store :: cache
  resolved :: "body list option"
  sent :: "string list"
  returned :: "(string \<times> body option) list"
  peak :: int

text \<open>
  One turn of the \<^verbatim>\<open>while\<close> loop (lines 210-214): take the first name, count the
  worker, and run the worker up to its \<^verbatim>\<open>await\<close>.
\<close>

definition launch :: "pool \<Rightarrow> pool" where
  "launch p =
     (case queue p of
        [] \<Rightarrow> p
      | nm # rest \<Rightarrow>
          (let p1 = p\<lparr>queue := rest, active := active p + 1,
                       peak := max (peak p) (active p + 1)\<rparr>
           in case fetchDetailSafely_call (store p1) nm of
                Ready v \<Rightarrow>
                  p1\<lparr>workers := workers p1 @ [Settled nm v],
                     returned := returned p1 @ [(nm, v)]\<rparr>
              | Awaiting key \<Rightarrow>
                  p1\<lparr>workers := workers p1 @ [Waiting nm key],
                     sent := sent p1 @ [key]\<rparr>))"

function pump :: "pool \<Rightarrow> pool" where
  "pump p = (if active p < CONCURRENCY \<and> queue p \<noteq> [] then pump (launch p) else p)"
  by pat_completeness auto
termination
  by (relation "measure (\<lambda>p. length (queue p))")
     (auto simp: launch_def Let_def split: list.splits pending.splits)

declare pump.simps [simp del]

text \<open>
  \<^verbatim>\<open>next\<close> (lines 204-224). Resolving a promise a second time does nothing.
\<close>

definition next' :: "pool \<Rightarrow> pool" where
  "next' p =
     (if queue p = [] \<and> active p = 0
      then (case resolved p of
              None \<Rightarrow> p\<lparr>resolved := Some (results p)\<rparr>
            | Some r \<Rightarrow> p)
      else pump p)"

text \<open>
  Lines 215-219 of a worker whose \<^verbatim>\<open>await\<close> gave \<open>v\<close>: the push of a value
  that is truthy, and the decrement. The worker \<open>i\<close> is no longer suspended.
\<close>

definition finish :: "nat \<Rightarrow> body option \<Rightarrow> pool \<Rightarrow> pool" where
  "finish i v p =
     p\<lparr>results := (case v of Some d \<Rightarrow> results p @ [d] | None \<Rightarrow> results p),
       active := active p - 1,
       workers := take i (workers p) @ drop (Suc i) (workers p)\<rparr>"

text \<open>
  What can happen to the pool from outside: the request of worker \<open>i\<close> settles (with a
  body or a failure), or the suspended worker \<open>i\<close>, whose promise has its value, is
  resumed and runs lines 215-220, ending with its call of \<^verbatim>\<open>next\<close>.
  An event that names no such worker is not possible (\<open>None\<close>).
\<close>

datatype event = Respond nat "error + reply" | Resume nat

fun step :: "event \<Rightarrow> pool \<Rightarrow> pool option" where
  "step (Respond i resp) p =
     (if i < length (workers p)
      then (case workers p ! i of
              Waiting nm key \<Rightarrow>
                (let (c', v) = fetchDetailSafely_settle (store p) key resp
                 in Some (p\<lparr>store := c',
                            workers := (workers p)[i := Settled nm v],
                            returned := returned p @ [(nm, v)]\<rparr>))
            | Settled nm v \<Rightarrow> None)
      else None)"
| "step (Resume i) p =
     (if i < length (workers p)
      then (case workers p ! i of
              Settled nm v \<Rightarrow> Some (next' (finish i v p))
            | Waiting nm key \<Rightarrow> None)
      else None)"

fun run :: "event list \<Rightarrow> pool \<Rightarrow> pool option" where
  "run [] p = Some p"
| "run (e # es) p = (case step e p of None \<Rightarrow> None | Some p' \<Rightarrow> run es p')"

text \<open>
  The call itself (lines 199-203 and 225): the variables are set up and \<^verbatim>\<open>next\<close> runs
  once, inside the promise's executor.
\<close>

definition start :: "cache \<Rightarrow> string list \<Rightarrow> pool" where
  "start c names =
     next' \<lparr>queue = names, results = [], active = 0, workers = [], store = c,
            resolved = None, sent = [], returned = [], peak = 0\<rparr>"

text \<open>
  \<^verbatim>\<open>await fetchManyDetails(names)\<close> under a schedule of events: the array the promise
  resolves with, the cache afterwards and the keys requested; \<open>None\<close> when the schedule
  is not possible or leaves the promise pending.
\<close>

definition fetchManyDetails :: "event list \<Rightarrow> cache \<Rightarrow> string list \<Rightarrow> (body list \<times> cache \<times> string list) option" where
  "fetchManyDetails evs c names =
     (case run evs (start c names) of
        None \<Rightarrow> None
      | Some p \<Rightarrow> (case resolved p of None \<Rightarrow> None | Some rs \<Rightarrow> Some (rs, store p, sent p)))"

section \<open>Sorting a batch\<close>

text \<open>
  \<^verbatim>\<open>Array.prototype.sort\<close> with a comparator. ECMAScript fixes no algorithm, only the
  result for a consistent comparator: the stable arrangement in which no element comes
  before one it compares greater than. A stable insertion sort computes it: an element
  goes in front of the first later element it does not compare greater than.
\<close>

fun insert_by :: "('a \<Rightarrow> 'a \<Rightarrow> int) \<Rightarrow> 'a \<Rightarrow> 'a list \<Rightarrow> 'a list" where
  "insert_by cmp x [] = [x]"
| "insert_by cmp x (y # ys) = (if cmp x y \<le> 0 then x # y # ys else y # insert_by cmp x ys)"

definition Array_sort :: "('a \<Rightarrow> 'a \<Rightarrow> int) \<Rightarrow> 'a list \<Rightarrow> 'a list" where
  "Array_sort cmp xs = foldr (insert_by cmp) xs []"

text \<open>
  The comparator of each \<^verbatim>\<open>case\<close> of \<^verbatim>\<open>sortPokemons\<close> (lines 377-382); no case
  matches another key. \<^verbatim>\<open>String.prototype.localeCompare\<close> depends on the locale of
  the browser and is the parameter \<open>lc\<close>.
\<close>

definition comparator :: "(string \<Rightarrow> string \<Rightarrow> int) \<Rightarrow> string \<Rightarrow> (detail \<Rightarrow> detail \<Rightarrow> int) option" where
  "comparator lc sortBy =
     (if sortBy = ''id-asc'' then Some (\<lambda>a b. int (id' a) - int (id' b))
      else if sortBy = ''id-desc'' then Some (\<lambda>a b. int (id' b) - int (id' a))
      else if sortBy = ''name-asc'' then Some (\<lambda>a b. lc (name a) (name b))
      else if sortBy = ''name-desc'' then Some (\<lambda>a b. lc (name b) (name a))
      else None)"

text \<open>The elements of the array \<^verbatim>\<open>sortPokemons(arr, sortBy)\<close> returns.\<close>

definition sortPokemons :: "(string \<Rightarrow> string \<Rightarrow> int) \<Rightarrow> detail list \<Rightarrow> string \<Rightarrow> detail list" where
  "sortPokemons lc arr sortBy =
     (case comparator lc sortBy of Some cmp \<Rightarrow> Array_sort cmp arr | None \<Rightarrow> arr)"

text \<open>
  The same function on a store of arrays, where an array is known by its reference (its
  index in the store): \<^verbatim>\<open>[...arr]\<close> allocates a new array with the elements of
  \<^verbatim>\<open>arr\<close>, \<^verbatim>\<open>sort\<close> rearranges the array it is called on, in place, and the reference
  of the new array is returned.
\<close>

type_synonym heap = "detail list list"

definition spread :: "heap \<Rightarrow> nat \<Rightarrow> heap \<times> nat" where
  "spread h arr = (h @ [h ! arr], length h)"

definition sort_in_place :: "(detail \<Rightarrow> detail \<Rightarrow> int) \<Rightarrow> heap \<Rightarrow> nat \<Rightarrow> heap" where
  "sort_in_place cmp h r = h[r := Array_sort cmp (h ! r)]"

definition sortPokemons_store :: "(string \<Rightarrow> string \<Rightarrow> int) \<Rightarrow> heap \<Rightarrow> nat \<Rightarrow> string \<Rightarrow> heap \<times> nat" where
  "sortPokemons_store lc h arr sortBy =
     (let (h1, out) = spread h arr
      in ((case comparator lc sortBy of Some cmp \<Rightarrow> sort_in_place cmp h1 out | None \<Rightarrow> h1), out))"

text \<open>
  What ECMAScript requires of \<^verbatim>\<open>localeCompare\<close>, as far as sorting needs it: of two
  strings one does not compare greater than the other, and not comparing greater is
  transitive.
\<close>

definition consistent :: "(string \<Rightarrow> string \<Rightarrow> int) \<Rightarrow> bool" where
  "consistent lc \<longleftrightarrow>
     (\<forall>a b. lc a b \<le> 0 \<or> lc b a \<le> 0) \<and>
     (\<forall>a b c. lc a b \<le> 0 \<and> lc b c \<le> 0 \<longrightarrow> lc a c \<le> 0)"

text \<open>A comparator under which sorting is determined: total and transitive.\<close>

definition orders :: "('a \<Rightarrow> 'a \<Rightarrow> int) \<Rightarrow> bool" where
  "orders cmp \<longleftrightarrow>
     (\<forall>a b. cmp a b \<le> 0 \<or> cmp b a \<le> 0) \<and>
     (\<forall>a b c. cmp a b \<le> 0 \<and> cmp b c \<le> 0 \<longrightarrow> cmp a c \<le> 0)"

section \<open>The state of the page and the pager\<close>

definition PAGE_LIMIT :: nat where
  "PAGE_LIMIT = 24"

datatype mode = ListMode | TypeMode | SearchMode

text \<open>
  An entry of a listing or of a type's membership: \<^verbatim>\<open>{name, url}\<close>. The name is
  only ever passed to \<^verbatim>\<open>fetchDetailSafely\<close>, which takes \<^verbatim>\<open>String\<close> of it: an
  entry without a name is the entry named \<^verbatim>\<open>undefined\<close>.
\<close>

record entry =
  entry_name :: string
  entry_url :: string

text \<open>The object \<^verbatim>\<open>state\<close> (lines 25-35).\<close>

record state =
  mode :: mode
  offset :: nat
  limit :: nat
  hasMore :: bool
  currentQ :: string
  currentType :: string
  currentSort :: string
  typeCatalog :: "entry list"
  typeCursor :: nat

text \<open>
  What the script shows and sends: the children of the results element, the toasts
  shown, and the requests made to the API, each by its endpoint and parameters.
\<close>

datatype node = Card body | Skeleton | EmptyState

datatype notice = ErrorToast string | InfoToast string

datatype request = ListRequest nat nat | TypeRequest string | DetailRequest string

record page =
  st :: state
  cache :: cache
  grid :: "node list"
  busy :: bool
  moreHidden :: bool
  toasts :: "notice list"
  requests :: "request list"

text \<open>The values of the three form controls when a query is submitted.\<close>

record controls =
  q_value :: string
  typeFilter_value :: string
  sortBy_value :: string

text \<open>
  What the outside does during one page load. \<open>listing\<close> and \<open>membership\<close> are how
  \<^verbatim>\<open>fetchListPage\<close> and \<^verbatim>\<open>fetchTypeCatalog\<close> get their entries: \<open>Inl\<close> when
  \<^verbatim>\<open>fetchJSON\<close> fails or the body cannot be read as they read it, otherwise the entries
  of the \<^verbatim>\<open>results\<close> or \<^verbatim>\<open>pokemon\<close> field, which may be absent. \<open>lookup\<close> is how
  the request of a search settles, and \<open>schedule\<close> is the schedule of the pool. A round
  makes at most one request of each kind and starts at most one pool.

  The last two fields are the choices that ECMAScript leaves to the engine when
  \<^verbatim>\<open>sort\<close> is given objects that the comparator cannot order, one without a numeric id
  under an id key or without a string name under a name key: the arrangement it produces,
  and whether it calls the comparator of a name key with a nameless object in the place
  whose \<^verbatim>\<open>name.localeCompare\<close> is called, which throws.
\<close>

record io =
  listing :: "error + entry list option"
  membership :: "error + entry list option"
  lookup :: "error + reply"
  schedule :: "event list"
  engine_order :: "body list"
  engine_throws :: bool

definition setBusy :: "bool \<Rightarrow> page \<Rightarrow> page" where
  "setBusy b w = w\<lparr>busy := b\<rparr>"

definition renderSkeletons :: "nat \<Rightarrow> page \<Rightarrow> page" where
  "renderSkeletons n w = w\<lparr>grid := grid w @ replicate n Skeleton\<rparr>"

definition clearSkeletons :: "page \<Rightarrow> page" where
  "clearSkeletons w = w\<lparr>grid := filter (\<lambda>x. x \<noteq> Skeleton) (grid w)\<rparr>"

definition renderEmptyState :: "page \<Rightarrow> page" where
  "renderEmptyState w = w\<lparr>grid := grid w @ [EmptyState]\<rparr>"

text \<open>
  \<^verbatim>\<open>buildCard\<close> (lines 268-316) iterates over \<^verbatim>\<open>detail.types\<close> and
  \<^verbatim>\<open>detail.abilities\<close> and maps over \<^verbatim>\<open>detail.stats\<close>: it throws when one of them
  is missing. \<^verbatim>\<open>renderCards\<close> (lines 259-265) builds every card into a fragment and
  appends the fragment at the end, so a throw leaves the grid as it was.
\<close>

fun renderable :: "body \<Rightarrow> bool" where
  "renderable (Detail d) = True"
| "renderable (Other x) = (other_types x \<noteq> None \<and> other_card x)"

definition buildCard :: "body \<Rightarrow> error + node" where
  "buildCard b = (if renderable b then Inr (Card b) else Inl TypeError)"

fun buildCards :: "body list \<Rightarrow> error + node list" where
  "buildCards [] = Inr []"
| "buildCards (p # ps) =
     (case buildCard p of
        Inl e \<Rightarrow> Inl e
      | Inr n \<Rightarrow> (case buildCards ps of Inl e \<Rightarrow> Inl e | Inr ns \<Rightarrow> Inr (n # ns)))"

definition renderCards :: "body list \<Rightarrow> page \<Rightarrow> error + page" where
  "renderCards pokemons w =
     (case buildCards pokemons of
        Inl e \<Rightarrow> Inl e
      | Inr frag \<Rightarrow> Inr (w\<lparr>grid := grid w @ frag\<rparr>))"

text \<open>
  \<^verbatim>\<open>sortPokemons\<close> on a batch of the pager, whose elements are whatever
  \<^verbatim>\<open>fetchDetailSafely\<close> returned. \<open>view\<close> is what the comparator reads of a body that
  has it. When every element has the property of the key, or there is at most one element
  and the comparator is never called, the result is that of \<open>Array_sort\<close> with the
  comparator of the key. Otherwise \<^verbatim>\<open>a.id - b.id\<close> is \<^verbatim>\<open>NaN\<close> for some pairs, which
  \<^verbatim>\<open>sort\<close> takes for 0, and \<^verbatim>\<open>a.name.localeCompare\<close> throws for a nameless
  \<^verbatim>\<open>a\<close>: the engine decides.
\<close>

fun view :: "body \<Rightarrow> detail" where
  "view (Detail d) = d"
| "view (Other x) =
     \<lparr>id' = the (other_id x), name = the (other_name x),
      types = (case other_types x of None \<Rightarrow> [] | Some ts \<Rightarrow> ts)\<rparr>"

definition keyed :: "string \<Rightarrow> body \<Rightarrow> bool" where
  "keyed sortBy b =
     (if sortBy = ''id-asc'' \<or> sortBy = ''id-desc'' then idOf b \<noteq> None
      else if sortBy = ''name-asc'' \<or> sortBy = ''name-desc'' then nameOf b \<noteq> None
      else True)"

definition sortPokemons_batch :: "(string \<Rightarrow> string \<Rightarrow> int) \<Rightarrow> io \<Rightarrow> body list \<Rightarrow> string \<Rightarrow> error + body list" where
  "sortPokemons_batch lc io arr sortBy =
     (case comparator lc sortBy of
        None \<Rightarrow> Inr arr
      | Some cmp \<Rightarrow>
          if list_all (keyed sortBy) arr \<or> length arr \<le> 1
          then Inr (Array_sort (\<lambda>a b. cmp (view a) (view b)) arr)
          else if (sortBy = ''name-asc'' \<or> sortBy = ''name-desc'') \<and> engine_throws io
          then Inl TypeError
          else Inr (if mset (engine_order io) = mset arr then engine_order io else arr))"

definition updateLoadMoreVisibility :: "page \<Rightarrow> page" where
  "updateLoadMoreVisibility w = w\<lparr>moreHidden := \<not> hasMore (st w)\<rparr>"

definition clearGrid :: "page \<Rightarrow> page" where
  "clearGrid w = w\<lparr>grid := []\<rparr>"

definition showError :: "string \<Rightarrow> page \<Rightarrow> page" where
  "showError msg w = w\<lparr>toasts := toasts w @ [ErrorToast msg]\<rparr>"

definition showInfo :: "string \<Rightarrow> page \<Rightarrow> page" where
  "showInfo msg w = w\<lparr>toasts := toasts w @ [InfoToast msg]\<rparr>"

text \<open>
  \<^verbatim>\<open>await fetchManyDetails(names)\<close> from the pager: the pool works on the cache of the
  page; \<open>None\<close> when the promise stays pending.
\<close>

definition awaitManyDetails :: "io \<Rightarrow> string list \<Rightarrow> page \<Rightarrow> (body list \<times> page) option" where
  "awaitManyDetails io names w =
     (case fetchManyDetails (schedule io) (cache w) names of
        None \<Rightarrow> None
      | Some (rs, c', keys) \<Rightarrow>
          Some (rs, w\<lparr>cache := c', requests := requests w @ map DetailRequest keys\<rparr>))"

text \<open>
  \<^verbatim>\<open>fetchListPage\<close> (lines 165-170). A failed \<^verbatim>\<open>fetchJSON\<close>, or a body whose
  \<^verbatim>\<open>results\<close> cannot be mapped, rejects the promise (\<open>Inl\<close>) before any detail is
  fetched.
\<close>

definition fetchListPage :: "io \<Rightarrow> nat \<Rightarrow> nat \<Rightarrow> page \<Rightarrow> ((error + body list) \<times> page) option" where
  "fetchListPage io off lim w =
     (let w1 = w\<lparr>requests := requests w @ [ListRequest lim off]\<rparr>
      in case listing io of
           Inl e \<Rightarrow> Some (Inl e, w1)
         | Inr list \<Rightarrow>
             (let names = map entry_name (case list of None \<Rightarrow> [] | Some rs \<Rightarrow> rs)
              in case awaitManyDetails io names w1 of
                   None \<Rightarrow> None
                 | Some (rs, w2) \<Rightarrow> Some (Inr rs, w2)))"

text \<open>\<^verbatim>\<open>fetchTypeCatalog\<close> (lines 173-180).\<close>

definition fetchTypeCatalog :: "io \<Rightarrow> string \<Rightarrow> page \<Rightarrow> (error + entry list) \<times> page" where
  "fetchTypeCatalog io typeName w =
     (let w1 = w\<lparr>requests := requests w @ [TypeRequest typeName]\<rparr>
      in case membership io of
           Inl e \<Rightarrow> (Inl e, w1)
         | Inr data \<Rightarrow>
             (Inr (map (\<lambda>p. \<lparr>entry_name = entry_name p, entry_url = entry_url p\<rparr>)
                    (case data of None \<Rightarrow> [] | Some ps \<Rightarrow> ps)), w1))"

definition notOfType :: "string \<Rightarrow> string \<Rightarrow> string" where
  "notOfType qs ty =
     [CHR 0x22] @ qs @ [CHR 0x22] @ '' is not of type '' @ [CHR 0x22] @ ty @ [CHR 0x22] @ ''.''"

text \<open>
  The three branches of \<^verbatim>\<open>loadMorePage\<close> (lines 104-137): the batch, or the
  exception thrown, with the page as the branch leaves it; \<open>None\<close> when the round never
  gets past an \<^verbatim>\<open>await\<close>. In the search branch \<^verbatim>\<open>poke.types.some(...)\<close> throws
  when the value looked up has no array of types; \<^verbatim>\<open>hasMore\<close> is assigned after it.
\<close>

definition listBranch :: "io \<Rightarrow> page \<Rightarrow> ((error + body list) \<times> page) option" where
  "listBranch io w =
     (case fetchListPage io (offset (st w)) (limit (st w)) w of
        None \<Rightarrow> None
      | Some (Inl e, w1) \<Rightarrow> Some (Inl e, w1)
      | Some (Inr batch, w1) \<Rightarrow>
          (let w2 = w1\<lparr>st := (st w1)\<lparr>offset := offset (st w1) + limit (st w1)\<rparr>\<rparr>;
               w3 = w2\<lparr>st := (st w2)\<lparr>hasMore := (length batch = limit (st w2))\<rparr>\<rparr>
           in Some (Inr batch, w3)))"

definition sliceBranch :: "io \<Rightarrow> page \<Rightarrow> ((error + body list) \<times> page) option" where
  "sliceBranch io w =
     (let slice = take (limit (st w)) (drop (typeCursor (st w)) (typeCatalog (st w)));
          w1 = w\<lparr>st := (st w)\<lparr>typeCursor := typeCursor (st w) + length slice\<rparr>\<rparr>;
          w2 = w1\<lparr>st := (st w1)\<lparr>hasMore := (typeCursor (st w1) < length (typeCatalog (st w1)))\<rparr>\<rparr>
      in case awaitManyDetails io (map entry_name slice) w2 of
           None \<Rightarrow> None
         | Some (batch, w3) \<Rightarrow> Some (Inr batch, w3))"

definition typeBranch :: "io \<Rightarrow> page \<Rightarrow> ((error + body list) \<times> page) option" where
  "typeBranch io w =
     (if typeCatalog (st w) = []
      then (case fetchTypeCatalog io (currentType (st w)) w of
              (Inl e, w1) \<Rightarrow> Some (Inl e, w1)
            | (Inr catalog, w1) \<Rightarrow>
                sliceBranch io (w1\<lparr>st := (st w1)\<lparr>typeCatalog := catalog, typeCursor := 0\<rparr>\<rparr>))
      else sliceBranch io w)"

definition searchBranch :: "io \<Rightarrow> page \<Rightarrow> ((error + body list) \<times> page) option" where
  "searchBranch io w =
     (let (c', poke, keys) = fetchDetailSafely (cache w) (currentQ (st w)) (lookup io);
          w1 = w\<lparr>cache := c', requests := requests w @ map DetailRequest keys\<rparr>
      in case (if poke \<noteq> None \<and> currentType (st w1) \<noteq> []
               then (case typesOf (the poke) of
                       None \<Rightarrow> Inl TypeError
                     | Some ts \<Rightarrow>
                         if \<not> (currentType (st w1) \<in> set ts)
                         then Inr ([], showInfo (notOfType (currentQ (st w1)) (currentType (st w1))) w1)
                         else Inr ([the poke], w1))
               else Inr ((case poke of Some pk \<Rightarrow> [pk] | None \<Rightarrow> []), w1)) of
           Inl e \<Rightarrow> Some (Inl e, w1)
         | Inr (batch, w2) \<Rightarrow> Some (Inr batch, w2\<lparr>st := (st w2)\<lparr>hasMore := False\<rparr>\<rparr>))"

definition fetchRound :: "io \<Rightarrow> page \<Rightarrow> ((error + body list) \<times> page) option" where
  "fetchRound io w =
     (case mode (st w) of
        ListMode \<Rightarrow> listBranch io w
      | TypeMode \<Rightarrow> typeBranch io w
      | SearchMode \<Rightarrow> searchBranch io w)"

text \<open>
  The \<^verbatim>\<open>catch\<close> and the \<^verbatim>\<open>finally\<close> of \<^verbatim>\<open>loadMorePage\<close> (lines 153-159),
  applied to the page as the throw left it: nothing that was written before is undone.
\<close>

definition caught :: "page \<Rightarrow> page" where
  "caught w = setBusy False (showError ''Error loading data from PokeAPI.'' (clearSkeletons w))"

text \<open>
  Lines 139-151, after the branch of the mode has given its batch: the skeletons are
  cleared; an empty batch shows the empty state on a first page; otherwise the batch is
  sorted and rendered, and either of the two may throw, which ends the round in the
  \<^verbatim>\<open>catch\<close> with the state as the branch wrote it and the visibility of the load-more
  button not updated.
\<close>

definition present :: "(string \<Rightarrow> string \<Rightarrow> int) \<Rightarrow> bool \<Rightarrow> io \<Rightarrow> body list \<Rightarrow> page \<Rightarrow> page" where
  "present lc isFirstPage io batch w3 =
     (let w4 = clearSkeletons w3
      in if batch = []
         then setBusy False (updateLoadMoreVisibility (if isFirstPage then renderEmptyState w4 else w4))
         else (case sortPokemons_batch lc io batch (currentSort (st w4)) of
                 Inl e \<Rightarrow> caught w4
               | Inr ordered \<Rightarrow>
                   (case renderCards ordered w4 of
                      Inl e \<Rightarrow> caught w4
                    | Inr w5 \<Rightarrow> setBusy False (updateLoadMoreVisibility w5))))"

text \<open>
  \<^verbatim>\<open>loadMorePage\<close> (lines 96-160): the skeletons of a first page, the branch of the
  mode, then either the \<^verbatim>\<open>catch\<close> or lines 139-151; the \<^verbatim>\<open>finally\<close> clears the
  busy flag on each way out.
\<close>

definition loadMorePage :: "(string \<Rightarrow> string \<Rightarrow> int) \<Rightarrow> bool \<Rightarrow> io \<Rightarrow> page \<Rightarrow> page option" where
  "loadMorePage lc isFirstPage io w =
     (let w1 = setBusy True w;
          w2 = (if isFirstPage
                then renderSkeletons (if mode (st w1) = SearchMode then 1 else limit (st w1)) w1
                else w1)
      in case fetchRound io w2 of
           None \<Rightarrow> None
         | Some (Inl err, w3) \<Rightarrow> Some (caught w3)
         | Some (Inr batch, w3) \<Rightarrow> Some (present lc isFirstPage io batch w3))"

text \<open>
  \<^verbatim>\<open>runQueryFromControls\<close> (lines 72-93): \<open>submit\<close> is its part before the
  \<^verbatim>\<open>await\<close>. A control's value is a string, so \<^verbatim>\<open>value || ''\<close> is the value, and an
  empty sort selection falls back to \<^verbatim>\<open>'id-asc'\<close>.
\<close>

definition submit :: "controls \<Rightarrow> page \<Rightarrow> page" where
  "submit ctl w =
     (let s1 = (st w)\<lparr>currentQ := toLowerCase (trim (q_value ctl))\<rparr>;
          s2 = s1\<lparr>currentType := toLowerCase (trim (typeFilter_value ctl))\<rparr>;
          s3 = s2\<lparr>currentSort := (if sortBy_value ctl = [] then ''id-asc'' else sortBy_value ctl)\<rparr>;
          s4 = s3\<lparr>mode := (if currentQ s3 \<noteq> [] then SearchMode
                            else if currentType s3 \<noteq> [] then TypeMode
                            else ListMode)\<rparr>;
          s5 = s4\<lparr>offset := 0, typeCatalog := [], typeCursor := 0, hasMore := True\<rparr>
      in clearGrid (w\<lparr>st := s5\<rparr>))"

definition runQueryFromControls :: "(string \<Rightarrow> string \<Rightarrow> int) \<Rightarrow> controls \<Rightarrow> io \<Rightarrow> page \<Rightarrow> page option" where
  "runQueryFromControls lc ctl io w = loadMorePage lc True io (submit ctl w)"

text \<open>
  The state the script starts with (lines 25-38), before anything is rendered. The
  load-more button is taken to be shown; the first round that catches nothing sets it.
\<close>

definition initial :: page where
  "initial =
     \<lparr>st = \<lparr>mode = ListMode, offset = 0, limit = PAGE_LIMIT, hasMore = True, currentQ = [],
             currentType = [], currentSort = ''id-asc'', typeCatalog = [], typeCursor = 0\<rparr>,
      cache = Map.empty, grid = [], busy = False, moreHidden = False, toasts = [],
      requests = []\<rparr>"

section \<open>Notions for stating the pager's properties\<close>

text \<open>The membership requests among the requests made so far.\<close>

fun isTypeRequest :: "request \<Rightarrow> bool" where
  "isTypeRequest (TypeRequest ty) = True"
| "isTypeRequest r = False"

definition membershipRequests :: "page \<Rightarrow> request list" where
  "membershipRequests w = filter isTypeRequest (requests w)"

text \<open>
  \<^verbatim>\<open>loadMorePage\<close> as it enters its branch: busy, and with the skeletons of a
  first page.
\<close>

definition entered :: "bool \<Rightarrow> page \<Rightarrow> page" where
  "entered isFirstPage w =
     (let w1 = setBusy True w
      in if isFirstPage
         then renderSkeletons (if mode (st w1) = SearchMode then 1 else limit (st w1)) w1
         else w1)"

text \<open>
  The batch that the branch of the mode gives in a round (lines 106-137); \<open>None\<close> when
  the branch throws.
\<close>

definition roundBatch :: "bool \<Rightarrow> io \<Rightarrow> page \<Rightarrow> body list option" where
  "roundBatch isFirstPage io w =
     (case fetchRound io (entered isFirstPage w) of
        Some (Inr batch, w3) \<Rightarrow> Some batch
      | _ \<Rightarrow> None)"

text \<open>The entries of the listing response, none if the request failed.\<close>

definition listed :: "io \<Rightarrow> entry list" where
  "listed io = (case listing io of Inr (Some rs) \<Rightarrow> rs | _ \<Rightarrow> [])"

text \<open>The slice of the stored catalog that a load in category mode takes.\<close>

definition slice :: "state \<Rightarrow> entry list" where
  "slice s = take (limit s) (drop (typeCursor s) (typeCatalog s))"

text \<open>
  Clicks on the load-more button one after the other, each with what the outside does
  during it (line 63: the handler calls \<^verbatim>\<open>loadMorePage()\<close>).
\<close>

fun loadMores :: "(string \<Rightarrow> string \<Rightarrow> int) \<Rightarrow> io list \<Rightarrow> page \<Rightarrow> page option" where
  "loadMores lc [] w = Some w"
| "loadMores lc (io # ios) w =
     (case loadMorePage lc False io w of None \<Rightarrow> None | Some w' \<Rightarrow> loadMores lc ios w')"

text \<open>
  For the invariant of the pool: the names whose request is outstanding, and the value
  a suspended worker is about to push.
\<close>

fun outstanding :: "task \<Rightarrow> string list" where
  "outstanding (Waiting nm key) = [nm]"
| "outstanding (Settled nm v) = []"

fun delivered :: "task \<Rightarrow> body list" where
  "delivered (Settled nm (Some d)) = [d]"
| "delivered t = []"

definition pool_inv :: "string list \<Rightarrow> pool \<Rightarrow> bool" where
  "pool_inv names p \<longleftrightarrow>
     active p = int (length (workers p)) \<and> active p \<le> peak p \<and> peak p \<le> CONCURRENCY \<and>
     mset names = mset (queue p) + mset (concat (map outstanding (workers p))) + mset (map fst (returned p)) \<and>
     mset (results p) + mset (concat (map delivered (workers p))) = mset (List.map_filter snd (returned p)) \<and>
     (resolved p \<noteq> None \<longrightarrow> resolved p = Some (results p) \<and> queue p = [] \<and> workers p = [])"

text \<open>
  For the progress of the pool: after \<^verbatim>\<open>next\<close> has run, the pool is full or the queue
  is empty, and a pool that is not resolved has a suspended worker. \<open>remaining\<close> bounds
  the events still to come: two for a queued name or an outstanding request, one for a
  worker that waits to be resumed.
\<close>

definition pool_busy :: "pool \<Rightarrow> bool" where
  "pool_busy p \<longleftrightarrow>
     (queue p = [] \<or> CONCURRENCY \<le> active p) \<and> (resolved p = None \<longrightarrow> workers p \<noteq> [])"

fun weight :: "task \<Rightarrow> nat" where
  "weight (Waiting nm key) = 2"
| "weight (Settled nm v) = 1"

definition remaining :: "pool \<Rightarrow> nat" where
  "remaining p = 2 * length (queue p) + sum_list (map weight (workers p))"

section \<open>Example data\<close>

definition pikachu :: detail where
  "pikachu = \<lparr>id' = 25, name = ''pikachu'', types = [''electric'']\<rparr>"

definition charmander :: detail where
  "charmander = \<lparr>id' = 4, name = ''charmander'', types = [''fire'']\<rparr>"

text \<open>
  Two names, the second unknown to the API: its request fails first, then the first
  request succeeds, and the two workers are resumed.
\<close>

definition demo_events :: "event list" where
  "demo_events =
     [Respond 1 (Inl (HttpError 404)), Respond 0 (Inr (Object (Detail pikachu))), Resume 0, Resume 0]"

definition demo_pool :: pool where
  "demo_pool = the (run demo_events (start Map.empty [''Pikachu'', ''missingno'']))"

definition thirteen :: "string list" where
  "thirteen = map String_nat [1..<14]"

text \<open>
  A comparator to sort names with in the examples: by code point, the first difference
  deciding.
\<close>

fun byCodePoint :: "string \<Rightarrow> string \<Rightarrow> int" where
  "byCodePoint [] [] = 0"
| "byCodePoint [] (b # bs) = - 1"
| "byCodePoint (a # as) [] = 1"
| "byCodePoint (a # as) (b # bs) =
     (if (of_char a :: nat) < of_char b then - 1
      else if (of_char b :: nat) < of_char a then 1
      else byCodePoint as bs)"

text \<open>
  What the outside can do during a round: no network; a lookup that finds Pikachu; listings
  of one, of 24 and of 25 entries whose details are served one after the other; and the
  25 members of a category, of which the first page fetches 24 and the second the last.
\<close>

definition offline :: io where
  "offline = \<lparr>listing = Inl NetworkError, membership = Inl NetworkError,
              lookup = Inl NetworkError, schedule = [], engine_order = [], engine_throws = False\<rparr>"

definition dex :: "nat \<Rightarrow> detail" where
  "dex n = \<lparr>id' = n, name = ''mon'' @ String_nat n, types = [''fire'']\<rparr>"

definition dexEntry :: "nat \<Rightarrow> entry" where
  "dexEntry n = \<lparr>entry_name = ''mon'' @ String_nat n,
                 entry_url = ''https://pokeapi.co/api/v2/pokemon/'' @ String_nat n @ ''/''\<rparr>"

definition serve :: "nat list \<Rightarrow> event list" where
  "serve ns = concat (map (\<lambda>n. [Respond 0 (Inr (Object (Detail (dex n)))), Resume 0]) ns)"

text \<open>The form as submitted: nothing selected, a category, an id, a name with a category.\<close>

definition noControls :: controls where
  "noControls = \<lparr>q_value = [], typeFilter_value = [], sortBy_value = []\<rparr>"

definition fireControls :: controls where
  "fireControls = \<lparr>q_value = [], typeFilter_value = ''fire'', sortBy_value = ''id-desc''\<rparr>"

definition idControls :: controls where
  "idControls = \<lparr>q_value = ''25'', typeFilter_value = [], sortBy_value = []\<rparr>"


definition found :: io where
  "found = \<lparr>listing = Inl NetworkError, membership = Inl NetworkError,
            lookup = Inr (Object (Detail pikachu)), schedule = [], engine_order = [],
            engine_throws = False\<rparr>"

definition pikachuCache :: cache where
  "pikachuCache = [''pikachu'' \<mapsto> Some (Detail pikachu), ''25'' \<mapsto> Some (Detail pikachu)]"

definition shortList :: io where
  "shortList = \<lparr>listing = Inr (Some [dexEntry 4]), membership = Inl NetworkError,
                lookup = Inl NetworkError, schedule = serve [4], engine_order = [],
     engine_throws = False\<rparr>"

definition fullList :: io where
  "fullList = \<lparr>listing = Inr (Some (map dexEntry [1..<25])), membership = Inl NetworkError,
               lookup = Inl NetworkError, schedule = serve [1..<25], engine_order = [],
     engine_throws = False\<rparr>"

definition overlong :: io where
  "overlong = \<lparr>listing = Inr (Some (map dexEntry [1..<26])), membership = Inl NetworkError,
               lookup = Inl NetworkError, schedule = serve [1..<26], engine_order = [],
     engine_throws = False\<rparr>"

definition fireCatalog :: io where
  "fireCatalog = \<lparr>listing = Inl NetworkError, membership = Inr (Some (map dexEntry [1..<26])),
                  lookup = Inl NetworkError, schedule = serve [1..<25], engine_order = [],
     engine_throws = False\<rparr>"

definition fireRest :: io where
  "fireRest = \<lparr>listing = Inl NetworkError, membership = Inl NetworkError,
               lookup = Inl NetworkError, schedule = serve [25], engine_order = [],
     engine_throws = False\<rparr>"

text \<open>
  The search text \<^verbatim>\<open>.\<close>: the request goes to \<^verbatim>\<open>/pokemon/.\<close>, which is the
  path of the listing, and the API answers ok with the listing object, whose fields are
  \<^verbatim>\<open>count\<close>, \<^verbatim>\<open>next\<close>, \<^verbatim>\<open>previous\<close> and \<^verbatim>\<open>results\<close>: it has no id, no
  name, no types.
\<close>

definition listingObject :: body where
  "listingObject = Other \<lparr>other_id = None, other_name = None, other_types = None, other_card = False\<rparr>"

definition dotControls :: controls where
  "dotControls = \<lparr>q_value = ''.'', typeFilter_value = [], sortBy_value = []\<rparr>"

definition dotAnswer :: io where
  "dotAnswer = \<lparr>listing = Inl NetworkError, membership = Inl NetworkError,
                lookup = Inr (Object listingObject), schedule = [], engine_order = [],
                engine_throws = False\<rparr>"

definition dotFireControls :: controls where
  "dotFireControls = \<lparr>q_value = ''.'', typeFilter_value = ''fire'', sortBy_value = []\<rparr>"

definition dotCache :: cache where
  "dotCache = [''.'' \<mapsto> Some listingObject, ''undefined'' \<mapsto> Some listingObject]"

text \<open>
  A detail with a name that has a space in front, and the cache after it was looked up
  by its id.
\<close>

definition padded :: detail where
  "padded = \<lparr>id' = 7, name = '' x'', types = []\<rparr>"

definition paddedCache :: cache where
  "paddedCache = [''7'' \<mapsto> Some (Detail padded), '' x'' \<mapsto> Some (Detail padded)]"

text \<open>
  A listing of one entry whose detail comes without abilities and stats: it has all that
  \<^verbatim>\<open>fetchDetailSafely\<close> reads, and \<^verbatim>\<open>buildCard\<close> throws on it.
\<close>

definition bare :: body where
  "bare = Other \<lparr>other_id = Some 4, other_name = Some ''mon4'', other_types = Some [''fire''],
                 other_card = False\<rparr>"

definition bareList :: io where
  "bareList = \<lparr>listing = Inr (Some [dexEntry 4]), membership = Inl NetworkError,
               lookup = Inl NetworkError, schedule = [Respond 0 (Inr (Object bare)), Resume 0],
               engine_order = [], engine_throws = False\<rparr>"

text \<open>The pages these rounds end with.\<close>

definition barePage :: page where
  "barePage = the (runQueryFromControls byCodePoint noControls bareList initial)"

definition dotFirst :: page where
  "dotFirst = the (runQueryFromControls byCodePoint dotControls dotAnswer initial)"

definition dotSecond :: page where
  "dotSecond = the (runQueryFromControls byCodePoint dotControls offline dotFirst)"

definition dotTyped :: page where
  "dotTyped = the (runQueryFromControls byCodePoint dotFireControls offline dotFirst)"

definition fullPage :: page where
  "fullPage = the (runQueryFromControls byCodePoint noControls fullList initial)"

definition failedFire :: page where
  "failedFire = the (runQueryFromControls byCodePoint fireControls offline initial)"

definition fireOffline :: page where
  "fireOffline = the (runQueryFromControls byCodePoint fireControls offline fullPage)"

definition retried :: page where
  "retried = the (loadMorePage byCodePoint False offline fireOffline)"


definition overfull :: page where
  "overfull = the (runQueryFromControls byCodePoint noControls overlong initial)"

definition searched :: page where
  "searched = the (runQueryFromControls byCodePoint idControls found initial)"

definition shortPage :: page where
  "shortPage = the (runQueryFromControls byCodePoint noControls shortList initial)"

definition fireFirst :: page where
  "fireFirst = the (runQueryFromControls byCodePoint fireControls fireCatalog initial)"

definition fireSecond :: page where
  "fireSecond = the (loadMorePage byCodePoint False fireRest fireFirst)"

section \<open>Normalisation lemmas\<close>

lemma of_char_lt_256: "(of_char c :: nat) < 256"
  by (cases c) (simp add: of_char_def)

lemma isUpper_lowerChar: "\<not> isUpper (lowerChar c)"
  using of_char_lt_256 [of c]
  by (auto simp: isUpper_def lowerChar_def Let_def)

lemma lowerChar_idem: "lowerChar (lowerChar c) = lowerChar c"
  using isUpper_lowerChar [of c] by (simp add: lowerChar_def)

lemma isWhite_lowerChar: "isWhite (lowerChar c) = isWhite c"
  using of_char_lt_256 [of c]
  by (auto simp: isUpper_def lowerChar_def isWhite_def Let_def)

lemma toLowerCase_idem: "toLowerCase (toLowerCase s) = toLowerCase s"
  by (simp add: toLowerCase_def lowerChar_idem)

lemma dropWhile_map_lower: "dropWhile isWhite (map lowerChar s) = map lowerChar (dropWhile isWhite s)"
  by (induction s) (auto simp: isWhite_lowerChar)

lemma trim_toLowerCase: "trim (toLowerCase s) = toLowerCase (trim s)"
  by (simp add: trim_def trimStart_def trimEnd_def toLowerCase_def dropWhile_map_lower rev_map)

lemma trimEnd_prefix: "t = trimEnd t @ rev (takeWhile isWhite (rev t))"
proof -
  have "rev (takeWhile isWhite (rev t) @ dropWhile isWhite (rev t)) = t"
    by (simp only: takeWhile_dropWhile_id rev_rev_ident)
  then show ?thesis
    by (simp only: rev_append trimEnd_def)
qed

lemma trimStart_trimEnd:
  assumes "trimStart t = t"
  shows "trimStart (trimEnd t) = trimEnd t"
proof (cases "trimEnd t")
  case Nil
  then show ?thesis by (simp add: trimStart_def)
next
  case (Cons a as)
  then have "t = a # (as @ rev (takeWhile isWhite (rev t)))"
    using trimEnd_prefix [of t] by simp
  then have "hd t = a" and "t \<noteq> []"
    by (metis list.sel(1), blast)
  with assms have "\<not> isWhite a"
    by (auto simp: trimStart_def dropWhile_eq_self_iff)
  with Cons show ?thesis
    by (simp add: trimStart_def)
qed

lemma trimEnd_idem: "trimEnd (trimEnd t) = trimEnd t"
  by (simp add: trimEnd_def)

lemma trimStart_idem: "trimStart (trimStart s) = trimStart s"
  by (simp add: trimStart_def)

lemma trim_idem: "trim (trim s) = trim s"
  by (simp add: trim_def trimStart_trimEnd trimEnd_idem trimStart_idem)

lemma normalise_idem: "trim (toLowerCase (trim (toLowerCase s))) = trim (toLowerCase s)"
  by (simp add: trim_toLowerCase toLowerCase_idem trim_idem)

lemma dropWhile_none: "\<forall>c \<in> set s. \<not> P c \<Longrightarrow> dropWhile P s = s"
  by (cases s) auto

lemma trim_no_white: "\<forall>c \<in> set s. \<not> isWhite c \<Longrightarrow> trim s = s"
  by (simp add: trim_def trimStart_def trimEnd_def dropWhile_none)

lemma toLowerCase_no_upper: "\<forall>c \<in> set s. \<not> isUpper c \<Longrightarrow> toLowerCase s = s"
  by (induction s) (auto simp: toLowerCase_def lowerChar_def)

lemma digitChar_plain: "d < 10 \<Longrightarrow> \<not> isWhite (digitChar d) \<and> \<not> isUpper (digitChar d)"
  by (simp add: digitChar_def isWhite_def isUpper_def)

lemma String_nat_plain: "\<forall>c \<in> set (String_nat n). \<not> isWhite c \<and> \<not> isUpper c"
proof (induction n rule: String_nat.induct)
  case (1 n)
  show ?case
  proof (cases "n < 10")
    case True
    then show ?thesis
      using digitChar_plain [of n] by (subst String_nat.simps) simp
  next
    case False
    then show ?thesis
      using "1" digitChar_plain [of "n mod 10"] by (subst String_nat.simps) auto
  qed
qed

lemma normalise_String_nat: "trim (toLowerCase (String_nat n)) = String_nat n"
  using String_nat_plain [of n] by (simp add: toLowerCase_no_upper trim_no_white)

section \<open>The invariant of the pool\<close>

lemma map_filter_snoc: "List.map_filter f (xs @ [x]) = List.map_filter f xs @ (case f x of None \<Rightarrow> [] | Some y \<Rightarrow> [y])"
  by (simp add: List.map_filter_def split: option.splits)

lemma launch_inv:
  assumes "pool_inv names p" "active p < CONCURRENCY"
  shows "pool_inv names (launch p)"
  using assms
  by (auto simp: pool_inv_def launch_def Let_def map_filter_snoc fetchDetailSafely_call_def
           split: list.splits pending.splits option.splits)

lemma pump_inv: "pool_inv names p \<Longrightarrow> pool_inv names (pump p)"
proof (induction p rule: pump.induct)
  case (1 p)
  show ?case
  proof (cases "active p < CONCURRENCY \<and> queue p \<noteq> []")
    case True
    then have "pool_inv names (launch p)"
      using "1.prems" by (simp add: launch_inv)
    then show ?thesis
      using True "1.IH" by (subst pump.simps) auto
  next
    case False
    then have "pump p = p"
      by (subst pump.simps) auto
    then show ?thesis
      using "1.prems" by simp
  qed
qed

lemma pump_resolved: "resolved (pump p) = resolved p"
proof (induction p rule: pump.induct)
  case (1 p)
  have "resolved (launch p) = resolved p"
    by (simp add: launch_def Let_def split: list.splits pending.splits)
  then show ?case
    using "1" by (subst pump.simps) simp
qed

lemma next_inv: "pool_inv names p \<Longrightarrow> pool_inv names (next' p)"
  by (auto simp: next'_def pump_inv split: option.splits) (auto simp: pool_inv_def)

lemma concat_map_nth:
  "i < length ws \<Longrightarrow>
   mset (concat (map f ws)) = mset (f (ws ! i)) + mset (concat (map f (take i ws @ drop (Suc i) ws)))"
proof -
  assume "i < length ws"
  then have "ws = take i ws @ ws ! i # drop (Suc i) ws"
    by (rule id_take_nth_drop)
  then have "concat (map f ws) = concat (map f (take i ws @ ws ! i # drop (Suc i) ws))"
    by simp
  then show ?thesis
    by simp
qed

lemma concat_map_upd:
  "i < length ws \<Longrightarrow>
   mset (concat (map f (ws[i := t]))) = mset (f t) + mset (concat (map f (take i ws @ drop (Suc i) ws)))"
  by (simp add: upd_conv_take_nth_drop)

lemma delivered_Settled: "delivered (Settled nm v) = (case v of None \<Rightarrow> [] | Some d \<Rightarrow> [d])"
  by (cases v) simp_all

lemma respond_inv:
  assumes "pool_inv names p" "i < length (workers p)" "workers p ! i = Waiting nm key"
  shows "pool_inv names (p\<lparr>store := c', workers := (workers p)[i := Settled nm v],
                            returned := returned p @ [(nm, v)]\<rparr>)"
proof -
  define ws where "ws = (workers p)[i := Settled nm v]"
  define rest where "rest = take i (workers p) @ drop (Suc i) (workers p)"
  have o: "mset (concat (map outstanding (workers p))) = {#nm#} + mset (concat (map outstanding rest))"
    using concat_map_nth [OF assms(2), of outstanding] assms(3) by (simp add: rest_def)
  have o': "mset (concat (map outstanding ws)) = mset (concat (map outstanding rest))"
    using concat_map_upd [OF assms(2), of outstanding "Settled nm v"] by (simp add: rest_def ws_def)
  have d: "mset (concat (map delivered (workers p))) = mset (concat (map delivered rest))"
    using concat_map_nth [OF assms(2), of delivered] assms(3) by (simp add: rest_def)
  have d': "mset (concat (map delivered ws)) =
            mset (case v of None \<Rightarrow> [] | Some d \<Rightarrow> [d]) + mset (concat (map delivered rest))"
    using concat_map_upd [OF assms(2), of delivered "Settled nm v"]
    by (simp only: rest_def ws_def delivered_Settled)
  have l: "length ws = length (workers p)"
    by (simp add: ws_def)
  from assms(2) have ne: "workers p \<noteq> []" by auto
  have "pool_inv names (p\<lparr>store := c', workers := ws, returned := returned p @ [(nm, v)]\<rparr>)"
    using assms(1) ne unfolding pool_inv_def
    by (simp add: o o' d d' l map_filter_snoc)
  then show ?thesis
    by (simp only: ws_def)
qed

lemma finish_inv:
  assumes "pool_inv names p" "i < length (workers p)" "workers p ! i = Settled nm v"
  shows "pool_inv names (finish i v p)"
proof -
  define rest where "rest = take i (workers p) @ drop (Suc i) (workers p)"
  define rs where "rs = (case v of Some d \<Rightarrow> results p @ [d] | None \<Rightarrow> results p)"
  have q: "finish i v p = p\<lparr>results := rs, active := active p - 1, workers := rest\<rparr>"
    by (simp add: finish_def rs_def rest_def)
  have o: "mset (concat (map outstanding (workers p))) = mset (concat (map outstanding rest))"
    using concat_map_nth [OF assms(2), of outstanding] assms(3) by (simp add: rest_def)
  have d: "mset (concat (map delivered (workers p))) =
           mset (case v of None \<Rightarrow> [] | Some d \<Rightarrow> [d]) + mset (concat (map delivered rest))"
    using concat_map_nth [OF assms(2), of delivered] assms(3)
    by (simp only: rest_def delivered_Settled)
  have r: "mset rs = mset (results p) + mset (case v of None \<Rightarrow> [] | Some d \<Rightarrow> [d])"
    by (cases v) (simp_all add: rs_def)
  have l: "int (length rest) = int (length (workers p)) - 1"
    using assms(2) by (simp add: rest_def min_def)
  from assms(2) have ne: "workers p \<noteq> []" by auto
  show ?thesis
    using assms(1) ne unfolding pool_inv_def q
    by (simp add: o d r l ac_simps)
qed

lemma step_inv:
  assumes "pool_inv names p" "step e p = Some p'"
  shows "pool_inv names p'"
proof (cases e)
  case (Respond i resp)
  with assms(2) obtain nm key where w: "i < length (workers p)" "workers p ! i = Waiting nm key"
    by (auto split: if_splits task.splits)
  obtain c' v where s: "fetchDetailSafely_settle (store p) key resp = (c', v)"
    by (cases "fetchDetailSafely_settle (store p) key resp")
  have "p' = p\<lparr>store := c', workers := (workers p)[i := Settled nm v], returned := returned p @ [(nm, v)]\<rparr>"
    using assms(2) Respond w s by simp
  then show ?thesis
    using respond_inv [OF assms(1) w] by simp
next
  case (Resume i)
  with assms(2) obtain nm v where w: "i < length (workers p)" "workers p ! i = Settled nm v"
    by (auto split: if_splits task.splits)
  have "p' = next' (finish i v p)"
    using assms(2) Resume w by simp
  then show ?thesis
    using finish_inv [OF assms(1) w] by (simp add: next_inv)
qed

lemma run_inv: "pool_inv names p \<Longrightarrow> run evs p = Some p' \<Longrightarrow> pool_inv names p'"
  by (induction evs arbitrary: p) (auto split: option.splits dest: step_inv)

lemma start_inv: "pool_inv names (start c names)"
  unfolding start_def by (rule next_inv) (simp add: pool_inv_def CONCURRENCY_def List.map_filter_def)


section \<open>Progress of the pool\<close>

lemma pump_saturated: "queue (pump p) = [] \<or> CONCURRENCY \<le> active (pump p)"
proof (induction p rule: pump.induct)
  case (1 p)
  show ?case
  proof (cases "active p < CONCURRENCY \<and> queue p \<noteq> []")
    case True
    then show ?thesis
      using "1.IH" by (subst (1 2) pump.simps) auto
  next
    case False
    then have "pump p = p"
      by (subst pump.simps) auto
    then show ?thesis
      using False by auto
  qed
qed

lemma launch_remaining: "remaining (launch p) \<le> remaining p"
  by (auto simp: launch_def remaining_def Let_def split: list.splits pending.splits)

lemma pump_remaining: "remaining (pump p) \<le> remaining p"
proof (induction p rule: pump.induct)
  case (1 p)
  show ?case
  proof (cases "active p < CONCURRENCY \<and> queue p \<noteq> []")
    case True
    then have "remaining (pump p) = remaining (pump (launch p))"
      by (subst pump.simps) auto
    also have "\<dots> \<le> remaining (launch p)"
      using True "1.IH" by auto
    also have "\<dots> \<le> remaining p"
      by (rule launch_remaining)
    finally show ?thesis .
  next
    case False
    then have "pump p = p"
      by (subst pump.simps) auto
    then show ?thesis
      by simp
  qed
qed

lemma next_remaining: "remaining (next' p) \<le> remaining p"
  by (auto simp: next'_def pump_remaining split: option.splits) (simp add: remaining_def)

lemma launch_workers: "length (workers p) \<le> length (workers (launch p))"
  by (simp add: launch_def Let_def split: list.splits pending.splits)

lemma launch_workers_nonempty: "queue p \<noteq> [] \<Longrightarrow> workers (launch p) \<noteq> []"
  by (simp add: launch_def Let_def split: list.splits pending.splits)

lemma pump_workers: "length (workers p) \<le> length (workers (pump p))"
proof (induction p rule: pump.induct)
  case (1 p)
  show ?case
  proof (cases "active p < CONCURRENCY \<and> queue p \<noteq> []")
    case True
    then have "pump p = pump (launch p)"
      by (subst pump.simps) auto
    then show ?thesis
      using True "1.IH" launch_workers [of p] by auto
  next
    case False
    then have "pump p = p"
      by (subst pump.simps) auto
    then show ?thesis
      by simp
  qed
qed

lemma next_busy:
  assumes "pool_inv names p"
  shows "pool_busy (next' p)"
proof (cases "queue p = [] \<and> active p = 0")
  case True
  then show ?thesis
    by (auto simp: next'_def pool_busy_def split: option.splits)
next
  case False
  then have n: "next' p = pump p"
    by (auto simp: next'_def)
  have i: "pool_inv names (pump p)"
    using assms by (rule pump_inv)
  have s: "queue (pump p) = [] \<or> CONCURRENCY \<le> active (pump p)"
    by (rule pump_saturated)
  have "workers (pump p) \<noteq> []" if "resolved (pump p) = None"
  proof (cases "queue (pump p) = []")
    case True
    show ?thesis
    proof (cases "active p < CONCURRENCY \<and> queue p \<noteq> []")
      case True
      then have "pump p = pump (launch p)"
        by (subst pump.simps) auto
      then show ?thesis
        using True pump_workers [of "launch p"] launch_workers_nonempty [of p] by auto
    next
      case False
      then have "pump p = p"
        by (subst pump.simps) auto
      then show ?thesis
        using \<open>queue (pump p) = []\<close> \<open>\<not> (queue p = [] \<and> active p = 0)\<close> assms
        by (auto simp: pool_inv_def)
    qed
  next
    case False
    with s have "CONCURRENCY \<le> active (pump p)" by simp
    then show ?thesis
      using i by (auto simp: pool_inv_def CONCURRENCY_def)
  qed
  with s n show ?thesis
    by (simp add: pool_busy_def)
qed


lemma step_busy:
  assumes "pool_inv names p" "pool_busy p" "step e p = Some p'"
  shows "pool_busy p'"
proof (cases e)
  case (Respond i resp)
  then show ?thesis
    using assms(2,3)
    by (auto simp: pool_busy_def split: if_splits task.splits prod.splits)
next
  case (Resume i)
  with assms(3) obtain nm v where w: "i < length (workers p)" "workers p ! i = Settled nm v"
    by (auto split: if_splits task.splits)
  have p': "p' = next' (finish i v p)"
    using assms(3) Resume w by simp
  have "pool_inv names (finish i v p)"
    using assms(1) w by (rule finish_inv)
  then show ?thesis
    unfolding p' by (rule next_busy)
qed

lemma run_busy: "pool_inv names p \<Longrightarrow> pool_busy p \<Longrightarrow> run evs p = Some p' \<Longrightarrow> pool_busy p'"
proof (induction evs arbitrary: p)
  case Nil
  then show ?case by simp
next
  case (Cons e es)
  then obtain q where q: "step e p = Some q" "run es q = Some p'"
    by (auto split: option.splits)
  have "pool_inv names q" "pool_busy q"
    using Cons.prems(1,2) q(1) by (auto intro: step_inv step_busy)
  then show ?case
    using q(2) by (rule Cons.IH)
qed

lemma start_busy: "pool_busy (start c names)"
  unfolding start_def
  by (rule next_busy [where names = names]) (simp add: pool_inv_def CONCURRENCY_def List.map_filter_def)

lemma sum_weight_nth:
  "i < length ws \<Longrightarrow> sum_list (map weight ws) = weight (ws ! i) + sum_list (map weight (take i ws @ drop (Suc i) ws))"
proof -
  assume "i < length ws"
  then have "ws = take i ws @ ws ! i # drop (Suc i) ws"
    by (rule id_take_nth_drop)
  then have "sum_list (map weight ws) = sum_list (map weight (take i ws @ ws ! i # drop (Suc i) ws))"
    by simp
  then show ?thesis
    by simp
qed

lemma step_remaining:
  assumes "step e p = Some p'"
  shows "remaining p' < remaining p"
proof (cases e)
  case (Respond i resp)
  with assms obtain nm key where w: "i < length (workers p)" "workers p ! i = Waiting nm key"
    by (auto split: if_splits task.splits)
  obtain c' v where s: "fetchDetailSafely_settle (store p) key resp = (c', v)"
    by (cases "fetchDetailSafely_settle (store p) key resp")
  have p': "p' = p\<lparr>store := c', workers := (workers p)[i := Settled nm v], returned := returned p @ [(nm, v)]\<rparr>"
    using assms Respond w s by simp
  show ?thesis
    using sum_weight_nth [OF w(1)] w
    by (simp add: p' remaining_def upd_conv_take_nth_drop)
next
  case (Resume i)
  with assms obtain nm v where w: "i < length (workers p)" "workers p ! i = Settled nm v"
    by (auto split: if_splits task.splits)
  have p': "p' = next' (finish i v p)"
    using assms Resume w by simp
  have "remaining (finish i v p) < remaining p"
    using sum_weight_nth [OF w(1)] w by (simp add: finish_def remaining_def)
  then show ?thesis
    using next_remaining [of "finish i v p"] by (simp add: p')
qed

lemma run_remaining: "run evs p = Some p' \<Longrightarrow> length evs + remaining p' \<le> remaining p"
proof (induction evs arbitrary: p)
  case Nil
  then show ?case by simp
next
  case (Cons e es)
  then obtain q where q: "step e p = Some q" "run es q = Some p'"
    by (auto split: option.splits)
  have "remaining q < remaining p"
    using q(1) by (rule step_remaining)
  moreover have "length es + remaining p' \<le> remaining q"
    using q(2) by (rule Cons.IH)
  ultimately show ?case by simp
qed

lemma busy_enabled:
  assumes "pool_busy p" "resolved p = None"
  shows "\<exists>e p'. step e p = Some p'"
proof -
  from assms have ne: "workers p \<noteq> []"
    by (simp add: pool_busy_def)
  show ?thesis
  proof (cases "workers p ! 0")
    case (Waiting nm key)
    then have "step (Respond 0 (Inl NetworkError)) p \<noteq> None"
      using ne by (simp add: fetchDetailSafely_settle_def)
    then show ?thesis by blast
  next
    case (Settled nm v)
    then have "step (Resume 0) p \<noteq> None"
      using ne by simp
    then show ?thesis by blast
  qed
qed

lemma drains:
  assumes "pool_inv names p" "pool_busy p"
  shows "\<exists>evs p'. run evs p = Some p' \<and> resolved p' \<noteq> None"
  using assms
proof (induction "remaining p" arbitrary: p rule: less_induct)
  case less
  show ?case
  proof (cases "resolved p")
    case (Some rs)
    then have "run [] p = Some p \<and> resolved p \<noteq> None" by simp
    then show ?thesis by blast
  next
    case None
    with less.prems(2) obtain e q where q: "step e p = Some q"
      using busy_enabled by blast
    have "remaining q < remaining p"
      using q by (rule step_remaining)
    moreover have "pool_inv names q" "pool_busy q"
      using less.prems q by (auto intro: step_inv step_busy)
    ultimately obtain evs p' where "run evs q = Some p'" "resolved p' \<noteq> None"
      using less.hyps by blast
    then have "run (e # evs) p = Some p' \<and> resolved p' \<noteq> None"
      using q by simp
    then show ?thesis by blast
  qed
qed

lemma start_remaining: "remaining (start c names) \<le> 2 * length names"
  unfolding start_def
  using next_remaining [of "\<lparr>queue = names, results = [], active = 0, workers = [], store = c,
            resolved = None, sent = [], returned = [], peak = 0\<rparr>"]
  by (simp add: remaining_def)


section \<open>What \<^verbatim>\<open>fetchManyDetails\<close> resolves with\<close>

lemma demo_check:
  "(case run demo_events (start Map.empty [''Pikachu'', ''missingno'']) of
      None \<Rightarrow> False
    | Some p \<Rightarrow> resolved p = Some [Detail pikachu] \<and>
        returned p = [(''missingno'', None), (''Pikachu'', Some (Detail pikachu))] \<and>
        sent p = [''pikachu'', ''missingno''] \<and> peak p = 2 \<and> active p = 0)"
  by code_simp

lemma demo_run: "run demo_events (start Map.empty [''Pikachu'', ''missingno'']) = Some demo_pool"
  using demo_check unfolding demo_pool_def by (simp split: option.splits)

lemma demo_resolved: "resolved demo_pool = Some [Detail pikachu]"
  using demo_check unfolding demo_pool_def by (simp split: option.splits)

text \<open>
  Every schedule from the call can be continued until the promise resolves, and no
  schedule has more than two events for each name: the pool neither hangs, as long as
  every request settles, nor runs for ever.
\<close>

lemma fetchManyDetails_resolves:
  assumes "run evs (start c names) = Some p"
  shows "length evs \<le> 2 * length names \<and> (\<exists>evs' p'. run evs' p = Some p' \<and> resolved p' \<noteq> None)"
proof -
  have "pool_inv names p"
    using start_inv assms by (rule run_inv)
  moreover have "pool_busy p"
    using start_inv start_busy assms by (rule run_busy)
  ultimately have "\<exists>evs' p'. run evs' p = Some p' \<and> resolved p' \<noteq> None"
    by (rule drains)
  moreover have "length evs \<le> 2 * length names"
    using run_remaining [OF assms] start_remaining [of c names] by simp
  ultimately show ?thesis by simp
qed

text \<open>
  C1. When the promise of \<^verbatim>\<open>fetchManyDetails(names)\<close> resolves, whatever the
  order in which the requests settled and the workers were resumed,
  \<^verbatim>\<open>fetchDetailSafely\<close> has returned once for each input name, and the array
  resolved with holds, up to order, exactly the details those calls returned: each call
  that returned a detail (or any other truthy value) contributes it, each call that
  returned null contributes nothing.
\<close>

theorem fetchManyDetails_result_set:
  assumes "run evs (start c names) = Some p" and "resolved p = Some rs"
  shows "fetchManyDetails evs c names = Some (rs, store p, sent p) \<and>
         mset (map fst (returned p)) = mset names \<and>
         mset rs = mset (List.map_filter snd (returned p)) \<and>
         set rs = {d. \<exists>nm. (nm, Some d) \<in> set (returned p)}"
proof -
  have f: "fetchManyDetails evs c names = Some (rs, store p, sent p)"
    using assms by (simp add: fetchManyDetails_def)
  have inv: "pool_inv names p"
    using start_inv assms(1) by (rule run_inv)
  with assms(2) have r: "rs = results p" "queue p = []" "workers p = []"
    by (auto simp: pool_inv_def)
  have a: "mset (map fst (returned p)) = mset names"
    using inv r by (simp add: pool_inv_def)
  have b: "mset rs = mset (List.map_filter snd (returned p))"
    using inv r by (simp add: pool_inv_def)
  have "set rs = set (List.map_filter snd (returned p))"
    using b by (rule mset_eq_setD)
  also have "\<dots> = {d. \<exists>nm. (nm, Some d) \<in> set (returned p)}"
    by (force simp: List.map_filter_def)
  finally show ?thesis
    using f a b by simp
qed

theorem fetchManyDetails_result_set_witness:
  "run demo_events (start Map.empty [''Pikachu'', ''missingno'']) = Some demo_pool \<and>
   resolved demo_pool = Some [Detail pikachu] \<and>
   mset (map fst (returned demo_pool)) = mset [''Pikachu'', ''missingno''] \<and>
   mset [Detail pikachu] = mset (List.map_filter snd (returned demo_pool)) \<and>
   set [Detail pikachu] = {d. \<exists>nm. (nm, Some d) \<in> set (returned demo_pool)}"
  using fetchManyDetails_result_set [OF demo_run demo_resolved] demo_run demo_resolved
  by simp

text \<open>
  C2. In every state a call of \<^verbatim>\<open>fetchManyDetails\<close> can reach, \<^verbatim>\<open>active\<close> has
  never been above \<^verbatim>\<open>CONCURRENCY\<close>, which is 12: \<open>peak\<close> is the highest value it has
  held, also inside the loop of \<^verbatim>\<open>next\<close>. \<^verbatim>\<open>active\<close> counts the suspended workers,
  and the pool is kept full while names are queued, since a resumed worker calls
  \<^verbatim>\<open>next\<close>, which draws from the queue.
\<close>

theorem active_never_exceeds_CONCURRENCY:
  assumes "run evs (start c names) = Some p"
  shows "peak p \<le> CONCURRENCY \<and> CONCURRENCY = 12 \<and> active p \<le> peak p \<and>
         active p = int (length (workers p)) \<and> (queue p = [] \<or> active p = CONCURRENCY)"
proof -
  have "pool_inv names p"
    using start_inv assms by (rule run_inv)
  moreover have "pool_busy p"
    using start_inv start_busy assms by (rule run_busy)
  ultimately show ?thesis
    by (auto simp: pool_inv_def pool_busy_def CONCURRENCY_def)
qed

lemma thirteen_check:
  "peak (start Map.empty thirteen) = 12 \<and> active (start Map.empty thirteen) = 12 \<and>
   queue (start Map.empty thirteen) = [''13''] \<and> length (workers (start Map.empty thirteen)) = 12"
  by code_simp

theorem active_never_exceeds_CONCURRENCY_witness:
  "run [] (start Map.empty thirteen) = Some (start Map.empty thirteen) \<and>
   peak (start Map.empty thirteen) \<le> CONCURRENCY \<and>
   peak (start Map.empty thirteen) = 12 \<and>
   active (start Map.empty thirteen) = int (length (workers (start Map.empty thirteen))) \<and>
   queue (start Map.empty thirteen) = [''13'']"
  using active_never_exceeds_CONCURRENCY [of "[]" Map.empty thirteen "start Map.empty thirteen"]
    thirteen_check
  by simp

text \<open>
  C10. \<^verbatim>\<open>fetchManyDetails([])\<close> resolves during the call itself, with the empty array:
  no worker is started, \<^verbatim>\<open>fetchDetailSafely\<close> is not called, nothing is requested, the
  cache is as before, and no event is left to wait for.
\<close>

theorem fetchManyDetails_empty:
  "fetchManyDetails [] c [] = Some ([], c, []) \<and>
   resolved (start c []) = Some [] \<and> workers (start c []) = [] \<and> active (start c []) = 0 \<and>
   sent (start c []) = [] \<and> returned (start c []) = [] \<and> step e (start c []) = None"
  by (cases e) (simp_all add: fetchManyDetails_def start_def next'_def)

theorem fetchManyDetails_empty_witness:
  "fetchManyDetails [] Map.empty [] = Some ([], Map.empty, []) \<and>
   resolved (start Map.empty []) = Some [] \<and> sent (start Map.empty []) = [] \<and>
   step (Resume 0) (start Map.empty []) = None"
  using fetchManyDetails_empty [of Map.empty "Resume 0"] by simp


section \<open>The mode of a query\<close>

lemma toLowerCase_Nil_iff: "toLowerCase s = [] \<longleftrightarrow> s = []"
  by (simp add: toLowerCase_def)

lemma awaitManyDetails_st: "awaitManyDetails io names w = Some (rs, w') \<Longrightarrow> st w' = st w"
  by (auto simp: awaitManyDetails_def split: option.splits)

lemma fetchListPage_st: "fetchListPage io off lim w = Some (r, w') \<Longrightarrow> st w' = st w"
  by (auto simp: fetchListPage_def Let_def split: sum.splits option.splits dest!: awaitManyDetails_st)

lemma fetchTypeCatalog_st: "fetchTypeCatalog io ty w = (r, w') \<Longrightarrow> st w' = st w"
  by (auto simp: fetchTypeCatalog_def Let_def split: sum.splits)

lemma listBranch_mode: "listBranch io w = Some (r, w') \<Longrightarrow> mode (st w') = mode (st w)"
  by (auto simp: listBranch_def Let_def split: option.splits sum.splits dest!: fetchListPage_st)

lemma sliceBranch_mode: "sliceBranch io w = Some (r, w') \<Longrightarrow> mode (st w') = mode (st w)"
  by (auto simp: sliceBranch_def Let_def split: option.splits dest!: awaitManyDetails_st)

lemma typeBranch_mode: "typeBranch io w = Some (r, w') \<Longrightarrow> mode (st w') = mode (st w)"
  by (auto simp: typeBranch_def split: if_splits sum.splits prod.splits
           dest!: sliceBranch_mode fetchTypeCatalog_st)

lemma searchBranch_mode: "searchBranch io w = Some (r, w') \<Longrightarrow> mode (st w') = mode (st w)"
  by (auto simp: searchBranch_def Let_def showInfo_def split: prod.splits if_splits option.splits)

lemma fetchRound_mode: "fetchRound io w = Some (r, w') \<Longrightarrow> mode (st w') = mode (st w)"
  by (auto simp: fetchRound_def split: mode.splits
           dest!: listBranch_mode typeBranch_mode searchBranch_mode)

lemma caught_frame:
  "st (caught w) = st w" "requests (caught w) = requests w" "cache (caught w) = cache w"
  "toasts (caught w) = toasts w @ [ErrorToast ''Error loading data from PokeAPI.'']"
  "moreHidden (caught w) = moreHidden w" "busy (caught w) = False"
  "grid (caught w) = filter (\<lambda>x. x \<noteq> Skeleton) (grid w)"
  by (simp_all add: caught_def setBusy_def showError_def clearSkeletons_def)

lemma renderCards_frame:
  assumes "renderCards ps w = Inr w'"
  shows "st w' = st w" "requests w' = requests w" "cache w' = cache w" "toasts w' = toasts w"
  using assms by (auto simp: renderCards_def split: sum.splits)

lemma present_frame:
  "st (present lc b io batch w) = st w" "requests (present lc b io batch w) = requests w"
  "cache (present lc b io batch w) = cache w" "busy (present lc b io batch w) = False"
proof -
  define w4 where "w4 = clearSkeletons w"
  have w4: "st w4 = st w" "requests w4 = requests w" "cache w4 = cache w"
    by (simp_all add: w4_def clearSkeletons_def)
  have c: "present lc b io batch w =
      (if batch = []
       then setBusy False (updateLoadMoreVisibility (if b then renderEmptyState w4 else w4))
       else (case sortPokemons_batch lc io batch (currentSort (st w4)) of
               Inl e \<Rightarrow> caught w4
             | Inr ordered \<Rightarrow>
                 (case renderCards ordered w4 of
                    Inl e \<Rightarrow> caught w4
                  | Inr w5 \<Rightarrow> setBusy False (updateLoadMoreVisibility w5))))"
    by (simp only: present_def w4_def Let_def)
  have "st (present lc b io batch w) = st w \<and> requests (present lc b io batch w) = requests w \<and>
      cache (present lc b io batch w) = cache w \<and> busy (present lc b io batch w) = False"
    unfolding c using w4
    by (auto simp: caught_frame setBusy_def updateLoadMoreVisibility_def renderEmptyState_def
             split: sum.splits dest: renderCards_frame)
  then show "st (present lc b io batch w) = st w" "requests (present lc b io batch w) = requests w"
    "cache (present lc b io batch w) = cache w" "busy (present lc b io batch w) = False"
    by simp_all
qed

lemma loadMorePage_mode: "loadMorePage lc b io w = Some w' \<Longrightarrow> mode (st w') = mode (st w)"
  by (auto simp: loadMorePage_def Let_def setBusy_def renderSkeletons_def caught_frame present_frame
           split: option.splits sum.splits prod.splits if_splits dest!: fetchRound_mode)

lemma submit_mode:
  "mode (st (submit ctl w)) =
     (if trim (q_value ctl) \<noteq> [] then SearchMode
      else if trim (typeFilter_value ctl) \<noteq> [] then TypeMode
      else ListMode)"
  by (simp add: submit_def Let_def clearGrid_def toLowerCase_Nil_iff)

text \<open>
  C3. When a query is submitted the mode is a function of the two filter inputs alone:
  search when the trimmed search text is not empty, otherwise category (\<^verbatim>\<open>'type'\<close>)
  when the trimmed category is not empty, otherwise list. The same reads off the stored
  \<^verbatim>\<open>currentQ\<close> and \<^verbatim>\<open>currentType\<close>, and the page load that follows leaves the
  mode as submitted.
\<close>

theorem mode_from_filters:
  "mode (st (submit ctl w)) =
     (if trim (q_value ctl) \<noteq> [] then SearchMode
      else if trim (typeFilter_value ctl) \<noteq> [] then TypeMode
      else ListMode) \<and>
   mode (st (submit ctl w)) =
     (if currentQ (st (submit ctl w)) \<noteq> [] then SearchMode
      else if currentType (st (submit ctl w)) \<noteq> [] then TypeMode
      else ListMode) \<and>
   currentQ (st (submit ctl w)) = toLowerCase (trim (q_value ctl)) \<and>
   currentType (st (submit ctl w)) = toLowerCase (trim (typeFilter_value ctl)) \<and>
   (\<forall>w'. runQueryFromControls lc ctl io w = Some w' \<longrightarrow> mode (st w') = mode (st (submit ctl w)))"
  by (auto simp: submit_mode runQueryFromControls_def dest: loadMorePage_mode)
     (simp_all add: submit_def Let_def clearGrid_def toLowerCase_Nil_iff toLowerCase_def)

section \<open>The cache and the search\<close>

lemma fetchDetailSafely_failure:
  "fetchDetailSafely c k (Inl e) =
     (case c (trim (toLowerCase k)) of
        None \<Rightarrow> (c, None, [trim (toLowerCase k)])
      | Some v \<Rightarrow> (c, v, []))"
  by (simp add: fetchDetailSafely_def fetchDetailSafely_call_def fetchDetailSafely_settle_def
           split: option.splits)

lemma fetchDetailSafely_hit:
  "c (trim (toLowerCase k)) = Some v \<Longrightarrow> fetchDetailSafely c k r = (c, v, [])"
  by (simp add: fetchDetailSafely_def fetchDetailSafely_call_def)

lemma fetchDetailSafely_success:
  "c (trim (toLowerCase k)) = None \<Longrightarrow> nameOf b = Some nm \<Longrightarrow>
   fetchDetailSafely c k (Inr (Object b)) =
     (c(trim (toLowerCase k) \<mapsto> Some b, String_id (idOf b) \<mapsto> Some b, toLowerCase nm \<mapsto> Some b),
      Some b, [trim (toLowerCase k)])"
  by (simp add: fetchDetailSafely_def fetchDetailSafely_call_def fetchDetailSafely_settle_def)

text \<open>
  A body without a string name: null is returned, after the body was stored under the key
  and under \<^verbatim>\<open>String(data.id)\<close>. The same holds of \<^verbatim>\<open>null\<close> and of a falsy body,
  which are stored once and twice.
\<close>

lemma fetchDetailSafely_nameless:
  "c (trim (toLowerCase k)) = None \<Longrightarrow> nameOf b = None \<Longrightarrow>
   fetchDetailSafely c k (Inr (Object b)) =
     (c(trim (toLowerCase k) \<mapsto> Some b, String_id (idOf b) \<mapsto> Some b), None, [trim (toLowerCase k)])"
  by (simp add: fetchDetailSafely_def fetchDetailSafely_call_def fetchDetailSafely_settle_def)

lemma fetchDetailSafely_null:
  "c (trim (toLowerCase k)) = None \<Longrightarrow>
   fetchDetailSafely c k (Inr Null) = (c(trim (toLowerCase k) \<mapsto> None), None, [trim (toLowerCase k)]) \<and>
   fetchDetailSafely c k (Inr Falsy) =
     (c(trim (toLowerCase k) \<mapsto> None, ''undefined'' \<mapsto> None), None, [trim (toLowerCase k)])"
  by (simp add: fetchDetailSafely_def fetchDetailSafely_call_def fetchDetailSafely_settle_def)

text \<open>
  What \<^verbatim>\<open>fetchDetailSafely\<close> does when the API answers as its detail endpoint does, or
  not at all. When the request fails it returns null and leaves the cache as it was. When
  the request succeeds with a detail it returns the detail and stores it under the
  normalised key, the decimal id and the lowercased name, and under nothing else. A later
  call whose normalised key is one of the three, so a call with the same argument or with
  the id, returns the detail from the cache and requests nothing; a call with the name
  itself does when the lowercased name has no white space at its ends. The id is below
  \<^verbatim>\<open>1e21\<close>, where \<^verbatim>\<open>String\<close> writes digits.
\<close>

lemma fetchDetailSafely_of_detail:
  assumes "key = trim (toLowerCase k)" and "id' d < 10 ^ 21"
      and "c' = c(key \<mapsto> Some (Detail d), String_nat (id' d) \<mapsto> Some (Detail d),
                  toLowerCase (name d) \<mapsto> Some (Detail d))"
  shows "(c key = None \<longrightarrow> fetchDetailSafely c k (Inl e) = (c, None, [key])) \<and>
         (\<forall>v. c key = Some v \<longrightarrow> fetchDetailSafely c k r = (c, v, [])) \<and>
         (c key = None \<longrightarrow> fetchDetailSafely c k (Inr (Object (Detail d))) = (c', Some (Detail d), [key])) \<and>
         dom c' = dom c \<union> {key, String_nat (id' d), toLowerCase (name d)} \<and>
         (\<forall>k'. trim (toLowerCase k') \<in> {key, String_nat (id' d), toLowerCase (name d)} \<longrightarrow>
               fetchDetailSafely c' k' r = (c', Some (Detail d), [])) \<and>
         fetchDetailSafely c' k r = (c', Some (Detail d), []) \<and>
         fetchDetailSafely c' (String_nat (id' d)) r = (c', Some (Detail d), []) \<and>
         (trim (toLowerCase (name d)) = toLowerCase (name d) \<longrightarrow>
            fetchDetailSafely c' (name d) r = (c', Some (Detail d), []))"
proof -
  have al: "c' key = Some (Some (Detail d))" "c' (String_nat (id' d)) = Some (Some (Detail d))"
    "c' (toLowerCase (name d)) = Some (Some (Detail d))"
    by (simp_all add: assms(3))
  have hit: "fetchDetailSafely c' k' r = (c', Some (Detail d), [])"
    if "trim (toLowerCase k') \<in> {key, String_nat (id' d), toLowerCase (name d)}" for k'
    using that al by (auto intro: fetchDetailSafely_hit)
  have "fetchDetailSafely c' k r = (c', Some (Detail d), [])"
    by (rule hit) (simp add: assms(1))
  moreover have "fetchDetailSafely c' (String_nat (id' d)) r = (c', Some (Detail d), [])"
    by (rule hit) (simp add: normalise_String_nat)
  moreover have "dom c' = dom c \<union> {key, String_nat (id' d), toLowerCase (name d)}"
    by (auto simp: assms(3))
  moreover have "c key = None \<longrightarrow> fetchDetailSafely c k (Inl e) = (c, None, [key])"
    by (simp add: fetchDetailSafely_failure assms(1))
  moreover have "\<forall>v. c key = Some v \<longrightarrow> fetchDetailSafely c k r = (c, v, [])"
    by (simp add: fetchDetailSafely_hit assms(1))
  moreover have "c key = None \<longrightarrow>
      fetchDetailSafely c k (Inr (Object (Detail d))) = (c', Some (Detail d), [key])"
    using fetchDetailSafely_success [of c k "Detail d" "name d"] by (simp add: assms)
  moreover have "trim (toLowerCase (name d)) = toLowerCase (name d) \<longrightarrow>
            fetchDetailSafely c' (name d) r = (c', Some (Detail d), [])"
    using hit [of "name d"] by simp
  ultimately show ?thesis
    using hit by blast
qed



section \<open>Page loads\<close>

lemma length_map_filter_le: "length (List.map_filter f xs) \<le> length xs"
  by (simp add: List.map_filter_def)

lemma fetchManyDetails_length:
  assumes "fetchManyDetails evs c names = Some (rs, c', ks)"
  shows "length rs \<le> length names"
proof -
  from assms obtain p where p: "run evs (start c names) = Some p" "resolved p = Some rs"
    by (auto simp: fetchManyDetails_def split: option.splits)
  have inv: "pool_inv names p"
    using start_inv p(1) by (rule run_inv)
  with p(2) have r: "rs = results p" "queue p = []" "workers p = []"
    by (auto simp: pool_inv_def)
  have m: "mset rs = mset (List.map_filter snd (returned p))"
    using inv r by (simp add: pool_inv_def)
  have n: "mset names = mset (map fst (returned p))"
    using inv r by (simp add: pool_inv_def)
  have "length rs = length (List.map_filter snd (returned p))"
    using m by (rule mset_eq_length)
  also have "\<dots> \<le> length (returned p)"
    by (rule length_map_filter_le)
  also have "\<dots> = length (map fst (returned p))"
    by simp
  also have "\<dots> = length names"
    using n by (rule mset_eq_length [symmetric])
  finally show ?thesis .
qed

lemma awaitManyDetails_length: "awaitManyDetails io names w = Some (rs, w') \<Longrightarrow> length rs \<le> length names"
proof -
  assume a: "awaitManyDetails io names w = Some (rs, w')"
  then obtain c' ks where "fetchManyDetails (schedule io) (cache w) names = Some (rs, c', ks)"
    by (auto simp: awaitManyDetails_def split: option.splits)
  then show ?thesis
    by (rule fetchManyDetails_length)
qed

lemma loadMorePage_entered:
  "loadMorePage lc isFirstPage io w =
     (case fetchRound io (entered isFirstPage w) of
        None \<Rightarrow> None
      | Some (Inl err, w3) \<Rightarrow> Some (caught w3)
      | Some (Inr batch, w3) \<Rightarrow> Some (present lc isFirstPage io batch w3))"
  by (simp only: loadMorePage_def entered_def Let_def)

lemma entered_frame:
  "st (entered b w) = st w" "cache (entered b w) = cache w" "requests (entered b w) = requests w"
  "toasts (entered b w) = toasts w"
  by (simp_all add: entered_def Let_def setBusy_def renderSkeletons_def)

text \<open>
  What a finished round leaves: the state, the cache and the requests of its branch,
  whether the branch threw or the rest of the round did.
\<close>

lemma loadMorePage_cases:
  assumes "loadMorePage lc b io w = Some w'"
  obtains (failed) e w3 where "fetchRound io (entered b w) = Some (Inl e, w3)"
      "st w' = st w3" "requests w' = requests w3" "cache w' = cache w3"
      "toasts w' = toasts w3 @ [ErrorToast ''Error loading data from PokeAPI.'']"
    | (fetched) batch w3 where "fetchRound io (entered b w) = Some (Inr batch, w3)"
      "st w' = st w3" "requests w' = requests w3" "cache w' = cache w3"
proof (cases "fetchRound io (entered b w)")
  case None
  with assms show ?thesis
    by (simp add: loadMorePage_entered)
next
  case (Some a)
  obtain r w3 where a: "a = (r, w3)" by (cases a)
  show ?thesis
  proof (cases r)
    case (Inl e)
    with assms Some a have "w' = caught w3"
      by (simp add: loadMorePage_entered)
    then show ?thesis
      using Some a Inl by (intro failed [of e w3]) (simp_all add: caught_frame)
  next
    case (Inr batch)
    with assms Some a have "w' = present lc b io batch w3"
      by (simp add: loadMorePage_entered)
    then show ?thesis
      using Some a Inr by (intro fetched [of batch w3]) (simp_all add: present_frame)
  qed
qed

text \<open>A round either never gets past an \<^verbatim>\<open>await\<close> of its branch, or it finishes.\<close>

lemma loadMorePage_finishes:
  "fetchRound io (entered b w) \<noteq> None \<Longrightarrow> \<exists>w'. loadMorePage lc b io w = Some w'"
  by (auto simp: loadMorePage_entered split: sum.splits)


lemma awaitManyDetails_frame:
  assumes "awaitManyDetails io names w = Some (rs, w')"
  shows "st w' = st w" "membershipRequests w' = membershipRequests w" "toasts w' = toasts w"
  using assms
  by (auto simp: awaitManyDetails_def membershipRequests_def comp_def split: option.splits)

lemma fetchListPage_failed:
  assumes "fetchListPage io off lim w = Some (Inl e, w')"
  shows "listing io = Inl e" "st w' = st w" "membershipRequests w' = membershipRequests w"
  using assms
  by (auto simp: fetchListPage_def Let_def membershipRequests_def split: sum.splits option.splits)

lemma fetchListPage_fetched:
  assumes "fetchListPage io off lim w = Some (Inr batch, w')"
  shows "\<exists>list. listing io = Inr list" "st w' = st w" "length batch \<le> length (listed io)"
    "membershipRequests w' = membershipRequests w"
proof -
  from assms obtain list w2 where l: "listing io = Inr list"
    and a: "awaitManyDetails io (map entry_name (case list of None \<Rightarrow> [] | Some rs \<Rightarrow> rs))
              (w\<lparr>requests := requests w @ [ListRequest lim off]\<rparr>) = Some (batch, w')"
    by (auto simp: fetchListPage_def Let_def split: sum.splits option.splits)
  show "\<exists>list. listing io = Inr list"
    using l by simp
  show "st w' = st w"
    using awaitManyDetails_frame(1) [OF a] by simp
  show "membershipRequests w' = membershipRequests w"
    using awaitManyDetails_frame(2) [OF a] by (simp add: membershipRequests_def)
  have "length batch \<le> length (map entry_name (case list of None \<Rightarrow> [] | Some rs \<Rightarrow> rs))"
    using a by (rule awaitManyDetails_length)
  then show "length batch \<le> length (listed io)"
    using l by (simp add: listed_def split: option.splits)
qed

lemma listBranch_failed:
  assumes "listBranch io w = Some (Inl e, w')"
  shows "listing io = Inl e" "st w' = st w" "membershipRequests w' = membershipRequests w"
proof -
  from assms have f: "fetchListPage io (offset (st w)) (limit (st w)) w = Some (Inl e, w')"
    by (auto simp: listBranch_def Let_def split: option.splits sum.splits)
  show "listing io = Inl e" "st w' = st w" "membershipRequests w' = membershipRequests w"
    using fetchListPage_failed [OF f] by simp_all
qed

lemma listBranch_fetched:
  assumes "listBranch io w = Some (Inr batch, w')"
  shows "st w' = (st w)\<lparr>offset := offset (st w) + limit (st w), hasMore := (length batch = limit (st w))\<rparr>"
    "length batch \<le> length (listed io)" "membershipRequests w' = membershipRequests w"
proof -
  from assms obtain w1 where f: "fetchListPage io (offset (st w)) (limit (st w)) w = Some (Inr batch, w1)"
    and w': "w' = w1\<lparr>st := (st w1)\<lparr>offset := offset (st w1) + limit (st w1),
                                     hasMore := (length batch = limit (st w1))\<rparr>\<rparr>"
    by (auto simp: listBranch_def Let_def split: option.splits sum.splits)
  show "st w' = (st w)\<lparr>offset := offset (st w) + limit (st w), hasMore := (length batch = limit (st w))\<rparr>"
    using fetchListPage_fetched(2) [OF f] by (simp add: w')
  show "length batch \<le> length (listed io)"
    using f by (rule fetchListPage_fetched(3))
  show "membershipRequests w' = membershipRequests w"
    using fetchListPage_fetched(4) [OF f] by (simp add: w' membershipRequests_def)
qed

lemma sliceBranch_result:
  assumes "sliceBranch io w = Some (r, w')"
  shows "\<exists>batch. r = Inr batch \<and> length batch \<le> length (slice (st w))"
    "st w' = (st w)\<lparr>typeCursor := typeCursor (st w) + length (slice (st w)),
                     hasMore := (typeCursor (st w) + length (slice (st w)) < length (typeCatalog (st w)))\<rparr>"
    "membershipRequests w' = membershipRequests w"
proof -
  define w2 where "w2 = w\<lparr>st := (st w)\<lparr>typeCursor := typeCursor (st w) + length (slice (st w)),
        hasMore := (typeCursor (st w) + length (slice (st w)) < length (typeCatalog (st w)))\<rparr>\<rparr>"
  from assms obtain batch where r: "r = Inr batch"
    and a: "awaitManyDetails io (map entry_name (slice (st w))) w2 = Some (batch, w')"
    by (auto simp: sliceBranch_def Let_def slice_def w2_def split: option.splits)
  have "length batch \<le> length (map entry_name (slice (st w)))"
    using a by (rule awaitManyDetails_length)
  then show "\<exists>batch. r = Inr batch \<and> length batch \<le> length (slice (st w))"
    using r by simp
  show "st w' = (st w)\<lparr>typeCursor := typeCursor (st w) + length (slice (st w)),
                     hasMore := (typeCursor (st w) + length (slice (st w)) < length (typeCatalog (st w)))\<rparr>"
    using awaitManyDetails_frame(1) [OF a] by (simp add: w2_def)
  show "membershipRequests w' = membershipRequests w"
    using awaitManyDetails_frame(2) [OF a] by (simp add: w2_def membershipRequests_def)
qed

lemma typeBranch_stored:
  "typeCatalog (st w) \<noteq> [] \<Longrightarrow> typeBranch io w = sliceBranch io w"
  by (simp add: typeBranch_def)

lemma typeBranch_failed:
  assumes "typeBranch io w = Some (Inl e, w')"
  shows "membership io = Inl e" "typeCatalog (st w) = []" "st w' = st w"
    "membershipRequests w' = membershipRequests w @ [TypeRequest (currentType (st w))]"
proof -
  have c: "typeCatalog (st w) = []"
    using assms sliceBranch_result(1) [of io w "Inl e" w']
    by (auto simp: typeBranch_def split: if_splits)
  then have "fetchTypeCatalog io (currentType (st w)) w = (Inl e, w')"
    using assms sliceBranch_result(1) [of io _ "Inl e" w']
    by (auto simp: typeBranch_def split: prod.splits sum.splits)
  then show "membership io = Inl e" "st w' = st w"
    "membershipRequests w' = membershipRequests w @ [TypeRequest (currentType (st w))]"
    by (auto simp: fetchTypeCatalog_def Let_def membershipRequests_def split: sum.splits)
  show "typeCatalog (st w) = []"
    by (rule c)
qed

lemma typeBranch_first:
  assumes "typeBranch io w = Some (Inr batch, w')" "typeCatalog (st w) = []"
  shows "membershipRequests w' = membershipRequests w @ [TypeRequest (currentType (st w))]"
    "\<exists>data. membership io = Inr data \<and>
        typeCatalog (st w') = map (\<lambda>p. \<lparr>entry_name = entry_name p, entry_url = entry_url p\<rparr>)
                                (case data of None \<Rightarrow> [] | Some ps \<Rightarrow> ps)"
    "hasMore (st w') = (typeCursor (st w') < length (typeCatalog (st w')))"
    "typeCursor (st w') = length (take (limit (st w)) (typeCatalog (st w')))"
proof -
  from assms obtain catalog w1 where f: "fetchTypeCatalog io (currentType (st w)) w = (Inr catalog, w1)"
    and s: "sliceBranch io (w1\<lparr>st := (st w1)\<lparr>typeCatalog := catalog, typeCursor := 0\<rparr>\<rparr>) = Some (Inr batch, w')"
    by (auto simp: typeBranch_def split: prod.splits sum.splits)
  from f obtain data where d: "membership io = Inr data"
    "catalog = map (\<lambda>p. \<lparr>entry_name = entry_name p, entry_url = entry_url p\<rparr>)
                                (case data of None \<Rightarrow> [] | Some ps \<Rightarrow> ps)"
    "w1 = w\<lparr>requests := requests w @ [TypeRequest (currentType (st w))]\<rparr>"
    by (auto simp: fetchTypeCatalog_def Let_def split: sum.splits)
  note r = sliceBranch_result [OF s]
  show "membershipRequests w' = membershipRequests w @ [TypeRequest (currentType (st w))]"
    using r(3) by (simp add: d(3) membershipRequests_def)
  show "\<exists>data. membership io = Inr data \<and>
        typeCatalog (st w') = map (\<lambda>p. \<lparr>entry_name = entry_name p, entry_url = entry_url p\<rparr>)
                                (case data of None \<Rightarrow> [] | Some ps \<Rightarrow> ps)"
    using r(2) d(1,2) by simp
  show "hasMore (st w') = (typeCursor (st w') < length (typeCatalog (st w')))"
    using r(2) by simp
  show "typeCursor (st w') = length (take (limit (st w)) (typeCatalog (st w')))"
    using r(2) by (simp add: slice_def d(3))
qed

lemma searchBranch_result:
  "(\<exists>batch w'. searchBranch io w = Some (Inr batch, w') \<and> hasMore (st w') = False \<and>
      membershipRequests w' = membershipRequests w) \<or>
   (\<exists>w'. searchBranch io w = Some (Inl TypeError, w') \<and> st w' = st w \<and>
      membershipRequests w' = membershipRequests w)"
  by (auto simp: searchBranch_def Let_def showInfo_def membershipRequests_def
           split: prod.splits option.splits)


lemma fetchRound_failed:
  assumes "fetchRound io w = Some (Inl e, w')"
  shows "st w' = st w" "mode (st w) = ListMode \<longrightarrow> listing io = Inl e"
    "mode (st w) = TypeMode \<longrightarrow> membership io = Inl e \<and> typeCatalog (st w) = []"
    "mode (st w) = SearchMode \<longrightarrow> e = TypeError"
proof -
  show "st w' = st w"
    using assms listBranch_failed(2) [of io w e w'] typeBranch_failed(3) [of io w e w']
      searchBranch_result [of io w]
    by (cases "mode (st w)") (auto simp: fetchRound_def)
  show "mode (st w) = ListMode \<longrightarrow> listing io = Inl e"
    using assms listBranch_failed(1) [of io w e w'] by (auto simp: fetchRound_def)
  show "mode (st w) = TypeMode \<longrightarrow> membership io = Inl e \<and> typeCatalog (st w) = []"
    using assms typeBranch_failed(1,2) [of io w e w'] by (auto simp: fetchRound_def)
  show "mode (st w) = SearchMode \<longrightarrow> e = TypeError"
    using assms searchBranch_result [of io w] by (auto simp: fetchRound_def)
qed

lemma fetchRound_fetched:
  assumes "fetchRound io w = Some (Inr batch, w')"
  shows "hasMore (st w') =
           (case mode (st w) of
              ListMode \<Rightarrow> length batch = limit (st w)
            | TypeMode \<Rightarrow> typeCursor (st w') < length (typeCatalog (st w'))
            | SearchMode \<Rightarrow> False)"
proof (cases "mode (st w)")
  case ListMode
  then have "listBranch io w = Some (Inr batch, w')"
    using assms by (simp add: fetchRound_def)
  from listBranch_fetched(1) [OF this] show ?thesis
    by (simp add: ListMode)
next
  case TypeMode
  then have t: "typeBranch io w = Some (Inr batch, w')"
    using assms by (simp add: fetchRound_def)
  show ?thesis
  proof (cases "typeCatalog (st w) = []")
    case True
    from typeBranch_first(3) [OF t True] show ?thesis
      by (simp add: TypeMode)
  next
    case False
    then have "sliceBranch io w = Some (Inr batch, w')"
      using t by (simp add: typeBranch_stored)
    from sliceBranch_result(2) [OF this] show ?thesis
      by (simp add: TypeMode)
  qed
next
  case SearchMode
  then have "searchBranch io w = Some (Inr batch, w')"
    using assms by (simp add: fetchRound_def)
  then show ?thesis
    using searchBranch_result [of io w] by (auto simp: SearchMode)
qed

lemma roundBatch_None:
  assumes "loadMorePage lc b io w = Some w'" "roundBatch b io w = None"
  shows "st w' = st w" "mode (st w) = ListMode \<longrightarrow> (\<exists>e. listing io = Inl e)"
    "mode (st w) = TypeMode \<longrightarrow> (\<exists>e. membership io = Inl e) \<and> typeCatalog (st w) = []"
proof -
  from assms(1) obtain e w3 where f: "fetchRound io (entered b w) = Some (Inl e, w3)"
    and s: "st w' = st w3"
    using assms(2) by (cases rule: loadMorePage_cases) (auto simp: roundBatch_def)
  note r = fetchRound_failed [OF f]
  show "st w' = st w"
    using s r(1) by (simp add: entered_frame)
  show "mode (st w) = ListMode \<longrightarrow> (\<exists>e. listing io = Inl e)"
    using r(2) by (auto simp: entered_frame)
  show "mode (st w) = TypeMode \<longrightarrow> (\<exists>e. membership io = Inl e) \<and> typeCatalog (st w) = []"
    using r(3) by (auto simp: entered_frame)
qed


lemma roundBatch_Some:
  assumes "loadMorePage lc b io w = Some w'" "roundBatch b io w = Some batch"
  obtains w3 where "fetchRound io (entered b w) = Some (Inr batch, w3)" "st w' = st w3"
    "requests w' = requests w3"
  using assms(1)
proof (cases rule: loadMorePage_cases)
  case (failed e w3)
  then show ?thesis
    using assms(2) by (simp add: roundBatch_def)
next
  case (fetched batch' w3)
  then show ?thesis
    using assms(2) that [of w3] by (simp add: roundBatch_def)
qed

text \<open>
  A round whose branch throws, because the listing or the membership request fails or
  because the type check of a search throws, leaves the state as it was.
\<close>

lemma thrown_branch_keeps_state:
  assumes "loadMorePage lc b io w = Some w'" "roundBatch b io w = None"
  shows "st w' = st w"
  using assms by (rule roundBatch_None(1))

text \<open>
  C4, as the code has it. Take a page-load round in which the branch of the mode gives
  its batch, that is, the listing or membership request does not fail and the type check
  of a search does not throw; the round may still end in the \<^verbatim>\<open>catch\<close>, when sorting
  or rendering the batch throws. After it, in list mode \<^verbatim>\<open>hasMore\<close> is true exactly
  when the batch has \<^verbatim>\<open>limit\<close> elements, so it is false exactly when the batch is
  smaller if the listing has at most \<^verbatim>\<open>limit\<close> entries; in category mode it is true
  exactly when the cursor is before the end of the catalog; in search mode it is false.
\<close>

theorem hasMore_after_round:
  assumes "loadMorePage lc b io w = Some w'" and "roundBatch b io w = Some batch"
  shows "hasMore (st w') =
           (case mode (st w) of
              ListMode \<Rightarrow> length batch = limit (st w)
            | TypeMode \<Rightarrow> typeCursor (st w') < length (typeCatalog (st w'))
            | SearchMode \<Rightarrow> False) \<and>
         (mode (st w) = ListMode \<and> length (listed io) \<le> limit (st w) \<longrightarrow>
            (\<not> hasMore (st w')) = (length batch < limit (st w)))"
proof (intro conjI impI)
  from assms obtain w3 where f: "fetchRound io (entered b w) = Some (Inr batch, w3)"
    and s: "st w' = st w3"
    by (rule roundBatch_Some)
  show h: "hasMore (st w') =
              (case mode (st w) of
                 ListMode \<Rightarrow> length batch = limit (st w)
               | TypeMode \<Rightarrow> typeCursor (st w') < length (typeCatalog (st w'))
               | SearchMode \<Rightarrow> False)"
    using fetchRound_fetched [OF f] by (simp add: s entered_frame split: mode.splits)
  assume l: "mode (st w) = ListMode \<and> length (listed io) \<le> limit (st w)"
  then have "listBranch io (entered b w) = Some (Inr batch, w3)"
    using f by (simp add: fetchRound_def entered_frame)
  then have "length batch \<le> length (listed io)"
    by (rule listBranch_fetched(2))
  then show "(\<not> hasMore (st w')) = (length batch < limit (st w))"
    using h l by (auto split: mode.splits)
qed



lemma submit_frame:
  "requests (submit ctl w) = requests w" "typeCatalog (st (submit ctl w)) = []"
  "currentType (st (submit ctl w)) = toLowerCase (trim (typeFilter_value ctl))"
  "currentQ (st (submit ctl w)) = toLowerCase (trim (q_value ctl))"
  "typeCursor (st (submit ctl w)) = 0" "offset (st (submit ctl w)) = 0" "hasMore (st (submit ctl w))"
  "limit (st (submit ctl w)) = limit (st w)"
  by (simp_all add: submit_def Let_def clearGrid_def)

text \<open>A load in category mode from a stored, non-empty catalog.\<close>

lemma stored_catalog_load:
  assumes "mode (st w) = TypeMode" "typeCatalog (st w) \<noteq> []" "loadMorePage lc b io w = Some w'"
  shows "membershipRequests w' = membershipRequests w"
    "st w' = (st w)\<lparr>typeCursor := typeCursor (st w) + length (slice (st w)),
                     hasMore := (typeCursor (st w) + length (slice (st w)) < length (typeCatalog (st w)))\<rparr>"
    "\<exists>batch. roundBatch b io w = Some batch \<and> length batch \<le> length (slice (st w))"
proof -
  have e: "fetchRound io (entered b w) = sliceBranch io (entered b w)"
    using assms(1,2) by (simp add: fetchRound_def entered_frame typeBranch_stored)
  from assms(3) show "\<exists>batch. roundBatch b io w = Some batch \<and> length batch \<le> length (slice (st w))"
  proof (cases rule: loadMorePage_cases)
    case (failed e' w3)
    then show ?thesis
      using e sliceBranch_result(1) [of io "entered b w" "Inl e'" w3] by simp
  next
    case (fetched batch w3)
    then show ?thesis
      using e sliceBranch_result(1) [of io "entered b w" "Inr batch" w3]
      by (simp add: roundBatch_def entered_frame)
  qed
  then obtain batch where rb: "roundBatch b io w = Some batch"
    by blast
  from assms(3) rb obtain w3 where f: "fetchRound io (entered b w) = Some (Inr batch, w3)"
    and s: "st w' = st w3" and r: "requests w' = requests w3"
    by (rule roundBatch_Some)
  from f e have sl: "sliceBranch io (entered b w) = Some (Inr batch, w3)"
    by simp
  show "st w' = (st w)\<lparr>typeCursor := typeCursor (st w) + length (slice (st w)),
                     hasMore := (typeCursor (st w) + length (slice (st w)) < length (typeCatalog (st w)))\<rparr>"
    using sliceBranch_result(2) [OF sl] by (simp add: s entered_frame)
  show "membershipRequests w' = membershipRequests w"
    using sliceBranch_result(3) [OF sl] r by (simp add: membershipRequests_def entered_frame)
qed

lemma stored_catalog_loads:
  assumes "loadMores lc ios w = Some w'" "mode (st w) = TypeMode" "typeCatalog (st w) \<noteq> []"
  shows "membershipRequests w' = membershipRequests w \<and> typeCatalog (st w') = typeCatalog (st w) \<and>
         mode (st w') = TypeMode \<and> limit (st w') = limit (st w)"
  using assms
proof (induction ios arbitrary: w)
  case Nil
  then show ?case by simp
next
  case (Cons io ios)
  then obtain w1 where l: "loadMorePage lc False io w = Some w1" and r: "loadMores lc ios w1 = Some w'"
    by (auto split: option.splits)
  note s = stored_catalog_load [OF Cons.prems(2,3) l]
  have "mode (st w1) = TypeMode" "typeCatalog (st w1) \<noteq> []"
    using s(2) Cons.prems(2,3) by simp_all
  from Cons.IH [OF r this] show ?case
    using s(1,2) by simp
qed

text \<open>
  C6, as the code has it. The first page load after a category is submitted makes exactly
  one membership request. Once a catalog that is not empty is stored, no later load-more
  for that category makes a membership request: each slices the stored catalog from the
  cursor, fetches at most that many details, and advances the cursor by the size of the
  slice.
\<close>

theorem category_catalog_fetched_once:
  assumes "trim (q_value ctl) = []" and "trim (typeFilter_value ctl) \<noteq> []"
      and "runQueryFromControls lc ctl io w = Some w1"
  shows "mode (st w1) = TypeMode \<and>
         membershipRequests w1 =
           membershipRequests w @ [TypeRequest (toLowerCase (trim (typeFilter_value ctl)))] \<and>
         (typeCatalog (st w1) \<noteq> [] \<longrightarrow>
            (\<forall>ios w2 io' w3.
               loadMores lc ios w1 = Some w2 \<and> loadMorePage lc False io' w2 = Some w3 \<longrightarrow>
                 membershipRequests w3 = membershipRequests w1 \<and>
                 typeCatalog (st w3) = typeCatalog (st w1) \<and>
                 typeCursor (st w3) = typeCursor (st w2) + length (slice (st w2)) \<and>
                 hasMore (st w3) = (typeCursor (st w3) < length (typeCatalog (st w3))) \<and>
                 (\<exists>batch. roundBatch False io' w2 = Some batch \<and> length batch \<le> length (slice (st w2)))))"
proof -
  define w0 where "w0 = submit ctl w"
  have l: "loadMorePage lc True io w0 = Some w1"
    using assms(3) by (simp add: runQueryFromControls_def w0_def)
  have m0: "mode (st w0) = TypeMode"
    using assms(1,2) by (simp add: w0_def submit_mode)
  have c0: "typeCatalog (st w0) = []" "requests w0 = requests w"
    "currentType (st w0) = toLowerCase (trim (typeFilter_value ctl))"
    by (simp_all add: w0_def submit_frame)
  have m1: "mode (st w1) = TypeMode"
    using loadMorePage_mode [OF l] m0 by simp
  have t: "typeBranch io (entered True w0) = fetchRound io (entered True w0)"
    using m0 by (simp add: fetchRound_def entered_frame)
  from l have r1: "membershipRequests w1 = membershipRequests w0 @ [TypeRequest (currentType (st w0))]"
  proof (cases rule: loadMorePage_cases)
    case (failed e w3)
    then show ?thesis
      using typeBranch_failed(4) [of io "entered True w0" e w3] t
      by (simp add: membershipRequests_def entered_frame)
  next
    case (fetched batch w3)
    then show ?thesis
      using typeBranch_first(1) [of io "entered True w0" batch w3] t c0(1)
      by (simp add: membershipRequests_def entered_frame)
  qed
  have a: "membershipRequests w1 =
           membershipRequests w @ [TypeRequest (toLowerCase (trim (typeFilter_value ctl)))]"
    using r1 c0 by (simp add: membershipRequests_def)
  have b: "membershipRequests w3 = membershipRequests w1 \<and>
           typeCatalog (st w3) = typeCatalog (st w1) \<and>
           typeCursor (st w3) = typeCursor (st w2) + length (slice (st w2)) \<and>
           hasMore (st w3) = (typeCursor (st w3) < length (typeCatalog (st w3))) \<and>
           (\<exists>batch. roundBatch False io' w2 = Some batch \<and> length batch \<le> length (slice (st w2)))"
    if ne: "typeCatalog (st w1) \<noteq> []" and ls: "loadMores lc ios w1 = Some w2"
      and lm: "loadMorePage lc False io' w2 = Some w3" for ios w2 io' w3
  proof -
    note p = stored_catalog_loads [OF ls m1 ne]
    have "mode (st w2) = TypeMode" "typeCatalog (st w2) \<noteq> []"
      using p ne by simp_all
    note q = stored_catalog_load [OF this lm]
    show ?thesis
      using p q by simp
  qed
  show ?thesis
    using m1 a b by blast
qed


section \<open>Sorting\<close>

lemma mset_insert_by: "mset (insert_by cmp x ys) = add_mset x (mset ys)"
  by (induction ys) auto

lemma mset_Array_sort: "mset (Array_sort cmp xs) = mset xs"
  by (induction xs) (auto simp: Array_sort_def mset_insert_by)

lemma set_insert_by: "set (insert_by cmp x ys) = insert x (set ys)"
  by (induction ys) auto

lemma Array_sort_Cons: "Array_sort cmp (x # xs) = insert_by cmp x (Array_sort cmp xs)"
  by (simp add: Array_sort_def)

lemma sorted_insert_by:
  assumes "orders cmp" "sorted_wrt (\<lambda>a b. cmp a b \<le> 0) ys"
  shows "sorted_wrt (\<lambda>a b. cmp a b \<le> 0) (insert_by cmp x ys)"
  using assms(2)
proof (induction ys)
  case Nil
  then show ?case by simp
next
  case (Cons y ys)
  show ?case
  proof (cases "cmp x y \<le> 0")
    case True
    have "cmp x z \<le> 0" if "z \<in> set ys" for z
    proof -
      have "cmp y z \<le> 0"
        using that Cons.prems by simp
      with True show ?thesis
        using assms(1) unfolding orders_def by blast
    qed
    then show ?thesis
      using True Cons.prems by simp
  next
    case False
    then have "cmp y x \<le> 0"
      using assms(1) unfolding orders_def by blast
    then show ?thesis
      using False Cons by (auto simp: set_insert_by)
  qed
qed

lemma sorted_Array_sort:
  "orders cmp \<Longrightarrow> sorted_wrt (\<lambda>a b. cmp a b \<le> 0) (Array_sort cmp xs)"
proof (induction xs)
  case Nil
  then show ?case by (simp add: Array_sort_def)
next
  case (Cons x xs)
  then show ?case by (simp add: Array_sort_Cons sorted_insert_by)
qed

lemma Array_sort_sorted:
  "sorted_wrt (\<lambda>a b. cmp a b \<le> 0) xs \<Longrightarrow> Array_sort cmp xs = xs"
proof (induction xs)
  case Nil
  then show ?case by (simp add: Array_sort_def)
next
  case (Cons x xs)
  then have "Array_sort cmp (x # xs) = insert_by cmp x xs"
    by (simp add: Array_sort_Cons)
  also have "\<dots> = x # xs"
    using Cons.prems by (cases xs) simp_all
  finally show ?case .
qed

text \<open>Stability: elements none of which compares greater than another keep their order.\<close>

lemma filter_insert_by:
  assumes "\<forall>a b. P a \<and> P b \<longrightarrow> cmp a b \<le> 0"
  shows "filter P (insert_by cmp x ys) = (if P x then x # filter P ys else filter P ys)"
  using assms by (induction ys) auto

lemma filter_Array_sort:
  assumes "\<forall>a b. P a \<and> P b \<longrightarrow> cmp a b \<le> 0"
  shows "filter P (Array_sort cmp xs) = filter P xs"
proof (induction xs)
  case Nil
  then show ?case by (simp add: Array_sort_def)
next
  case (Cons x xs)
  then show ?case
    using assms by (simp add: Array_sort_Cons filter_insert_by)
qed

lemma orders_id_asc: "orders (\<lambda>a b. int (id' a) - int (id' b))"
  by (auto simp: orders_def)

lemma orders_id_desc: "orders (\<lambda>a b. int (id' b) - int (id' a))"
  by (auto simp: orders_def)

lemma orders_name_asc: "consistent lc \<Longrightarrow> orders (\<lambda>a b. lc (name a) (name b))"
  unfolding orders_def consistent_def by blast

lemma orders_name_desc: "consistent lc \<Longrightarrow> orders (\<lambda>a b. lc (name b) (name a))"
  unfolding orders_def consistent_def by blast

lemma sortPokemons_store_eq:
  "sortPokemons_store lc h arr sortBy = (h @ [sortPokemons lc (h ! arr) sortBy], length h)"
  by (simp add: sortPokemons_store_def spread_def sort_in_place_def sortPokemons_def
           split: option.splits)

lemma byCodePoint_total: "byCodePoint a b \<le> 0 \<or> byCodePoint b a \<le> 0"
  by (induction a b rule: byCodePoint.induct) auto

lemma byCodePoint_trans:
  "byCodePoint a b \<le> 0 \<Longrightarrow> byCodePoint b c \<le> 0 \<Longrightarrow> byCodePoint a c \<le> 0"
proof (induction a b arbitrary: c rule: byCodePoint.induct)
  case 1
  then show ?case by simp
next
  case (2 b bs)
  then show ?case by (cases c) auto
next
  case (3 a as)
  then show ?case by simp
next
  case (4 a as b bs)
  show ?case
  proof (cases c)
    case Nil
    with "4.prems"(2) show ?thesis by simp
  next
    case (Cons z zs)
    have ab: "(of_char a :: nat) \<le> of_char b"
      using "4.prems"(1) by (simp split: if_splits)
    have bz: "(of_char b :: nat) \<le> of_char z"
      using "4.prems"(2) Cons by (simp split: if_splits)
    show ?thesis
    proof (cases "(of_char a :: nat) < of_char z")
      case True
      then show ?thesis
        using Cons by simp
    next
      case False
      with ab bz have "(of_char a :: nat) = of_char b" "(of_char b :: nat) = of_char z"
        by linarith+
      then have e: "a = b" "b = z"
        by simp_all
      have "byCodePoint as bs \<le> 0"
        using "4.prems"(1) e by simp
      moreover have "byCodePoint bs zs \<le> 0"
        using "4.prems"(2) Cons e by simp
      ultimately have "byCodePoint as zs \<le> 0"
        using "4.IH" e by simp
      then show ?thesis
        using Cons e by simp
    qed
  qed
qed

lemma consistent_byCodePoint: "consistent byCodePoint"
  unfolding consistent_def using byCodePoint_total byCodePoint_trans by blast


lemma sortPokemons_unknown:
  "sortBy \<notin> {''id-asc'', ''id-desc'', ''name-asc'', ''name-desc''} \<Longrightarrow> sortPokemons lc arr sortBy = arr"
  by (simp add: sortPokemons_def comparator_def)

lemma sortPokemons_mset: "mset (sortPokemons lc arr sortBy) = mset arr"
  by (simp add: sortPokemons_def mset_Array_sort split: option.splits)

lemma sortPokemons_length: "length (sortPokemons lc arr sortBy) = length arr"
  using sortPokemons_mset [of lc arr sortBy] by (rule mset_eq_length)

lemma comparator_orders:
  assumes "comparator lc sortBy = Some cmp"
      and "sortBy = ''name-asc'' \<or> sortBy = ''name-desc'' \<Longrightarrow> consistent lc"
  shows "orders cmp"
  using assms orders_id_asc orders_id_desc orders_name_asc [of lc] orders_name_desc [of lc]
  by (auto simp: comparator_def split: if_splits)

lemma sortPokemons_ordered:
  assumes "comparator lc sortBy = Some cmp"
      and "sortBy = ''name-asc'' \<or> sortBy = ''name-desc'' \<Longrightarrow> consistent lc"
  shows "sorted_wrt (\<lambda>a b. cmp a b \<le> 0) (sortPokemons lc arr sortBy)"
  using comparator_orders [OF assms] assms(1) by (simp add: sortPokemons_def sorted_Array_sort)

lemma sortPokemons_sorted:
  assumes "comparator lc sortBy = Some cmp" and "sorted_wrt (\<lambda>a b. cmp a b \<le> 0) arr"
  shows "sortPokemons lc arr sortBy = arr"
  using assms by (simp add: sortPokemons_def Array_sort_sorted)

lemma sortPokemons_stable:
  assumes "comparator lc sortBy = Some cmp" and "\<forall>a b. P a \<and> P b \<longrightarrow> cmp a b \<le> 0"
  shows "filter P (sortPokemons lc arr sortBy) = filter P arr"
  using assms by (simp add: sortPokemons_def filter_Array_sort)

text \<open>
  C8. \<^verbatim>\<open>sortPokemons\<close> leaves every array of the store as it was, the one passed in
  included, and returns a new array with the same elements. For the four keys the new
  array is ordered by the comparator of the key, details with the same id (or the same
  name) keep their order, and an array that is ordered already comes back in the same
  order. For any other key the new array has the order of the input. For the two name
  keys \<^verbatim>\<open>localeCompare\<close> is taken to be consistent.
\<close>

theorem sortPokemons_pure_and_ordered:
  assumes "arr < length h"
      and "sortBy = ''name-asc'' \<or> sortBy = ''name-desc'' \<Longrightarrow> consistent lc"
      and "sortPokemons_store lc h arr sortBy = (h', out)"
  shows "out = length h \<and> out \<noteq> arr \<and> length h' = Suc (length h) \<and> take (length h) h' = h \<and>
         h' ! arr = h ! arr \<and>
         h' ! out = sortPokemons lc (h ! arr) sortBy \<and>
         mset (h' ! out) = mset (h ! arr) \<and>
         (\<forall>cmp. comparator lc sortBy = Some cmp \<longrightarrow>
            sorted_wrt (\<lambda>a b. cmp a b \<le> 0) (h' ! out) \<and>
            (sorted_wrt (\<lambda>a b. cmp a b \<le> 0) (h ! arr) \<longrightarrow> h' ! out = h ! arr)) \<and>
         (sortBy = ''id-asc'' \<longrightarrow> sorted_wrt (\<lambda>a b. id' a \<le> id' b) (h' ! out)) \<and>
         (sortBy = ''id-desc'' \<longrightarrow> sorted_wrt (\<lambda>a b. id' b \<le> id' a) (h' ! out)) \<and>
         (sortBy = ''name-asc'' \<longrightarrow> sorted_wrt (\<lambda>a b. lc (name a) (name b) \<le> 0) (h' ! out)) \<and>
         (sortBy = ''name-desc'' \<longrightarrow> sorted_wrt (\<lambda>a b. lc (name b) (name a) \<le> 0) (h' ! out)) \<and>
         (sortBy = ''id-asc'' \<or> sortBy = ''id-desc'' \<longrightarrow>
            (\<forall>k. filter (\<lambda>d. id' d = k) (h' ! out) = filter (\<lambda>d. id' d = k) (h ! arr))) \<and>
         (sortBy = ''name-asc'' \<or> sortBy = ''name-desc'' \<longrightarrow>
            (\<forall>k. filter (\<lambda>d. name d = k) (h' ! out) = filter (\<lambda>d. name d = k) (h ! arr))) \<and>
         (sortBy \<notin> {''id-asc'', ''id-desc'', ''name-asc'', ''name-desc''} \<longrightarrow> h' ! out = h ! arr)"
proof -
  have h': "h' = h @ [sortPokemons lc (h ! arr) sortBy]" and out: "out = length h"
    using assms(3) by (simp_all add: sortPokemons_store_eq)
  have o: "h' ! out = sortPokemons lc (h ! arr) sortBy"
    by (simp add: h' out)
  have frame: "out \<noteq> arr" "length h' = Suc (length h)" "take (length h) h' = h" "h' ! arr = h ! arr"
    using assms(1) by (simp_all add: h' out nth_append)
  have ordered: "sorted_wrt (\<lambda>a b. cmp a b \<le> 0) (h' ! out) \<and>
            (sorted_wrt (\<lambda>a b. cmp a b \<le> 0) (h ! arr) \<longrightarrow> h' ! out = h ! arr)"
    if "comparator lc sortBy = Some cmp" for cmp
    using that sortPokemons_ordered [OF that assms(2)] sortPokemons_sorted [OF that]
    by (simp add: o)
  have ia: "sorted_wrt (\<lambda>a b. id' a \<le> id' b) (h' ! out)" if "sortBy = ''id-asc''"
    using ordered [of "\<lambda>a b. int (id' a) - int (id' b)"] that by (simp add: comparator_def)
  have idd: "sorted_wrt (\<lambda>a b. id' b \<le> id' a) (h' ! out)" if "sortBy = ''id-desc''"
    using ordered [of "\<lambda>a b. int (id' b) - int (id' a)"] that by (simp add: comparator_def)
  have na: "sorted_wrt (\<lambda>a b. lc (name a) (name b) \<le> 0) (h' ! out)" if "sortBy = ''name-asc''"
    using ordered [of "\<lambda>a b. lc (name a) (name b)"] that by (simp add: comparator_def)
  have nd: "sorted_wrt (\<lambda>a b. lc (name b) (name a) \<le> 0) (h' ! out)" if "sortBy = ''name-desc''"
    using ordered [of "\<lambda>a b. lc (name b) (name a)"] that by (simp add: comparator_def)
  have si: "filter (\<lambda>d. id' d = k) (h' ! out) = filter (\<lambda>d. id' d = k) (h ! arr)"
    if "sortBy = ''id-asc'' \<or> sortBy = ''id-desc''" for k
    using that
      sortPokemons_stable [of lc sortBy "\<lambda>a b. int (id' a) - int (id' b)" "\<lambda>d. id' d = k" "h ! arr"]
      sortPokemons_stable [of lc sortBy "\<lambda>a b. int (id' b) - int (id' a)" "\<lambda>d. id' d = k" "h ! arr"]
    by (auto simp: o comparator_def)
  have refl: "lc k k \<le> 0" if "consistent lc" for k
    using that unfolding consistent_def by blast
  have sn: "filter (\<lambda>d. name d = k) (h' ! out) = filter (\<lambda>d. name d = k) (h ! arr)"
    if "sortBy = ''name-asc'' \<or> sortBy = ''name-desc''" for k
    using that refl [OF assms(2) [OF that], of k]
      sortPokemons_stable [of lc sortBy "\<lambda>a b. lc (name a) (name b)" "\<lambda>d. name d = k" "h ! arr"]
      sortPokemons_stable [of lc sortBy "\<lambda>a b. lc (name b) (name a)" "\<lambda>d. name d = k" "h ! arr"]
    by (auto simp: o comparator_def)
  have un: "h' ! out = h ! arr" if "sortBy \<notin> {''id-asc'', ''id-desc'', ''name-asc'', ''name-desc''}"
    using sortPokemons_unknown [OF that] by (simp add: o)
  have ms: "mset (h' ! out) = mset (h ! arr)"
    by (simp add: o sortPokemons_mset)
  show ?thesis
  proof (intro conjI)
    show "out = length h" "out \<noteq> arr" "length h' = Suc (length h)" "take (length h) h' = h"
      "h' ! arr = h ! arr" "h' ! out = sortPokemons lc (h ! arr) sortBy"
      "mset (h' ! out) = mset (h ! arr)"
      by (fact out frame o ms)+
    show "\<forall>cmp. comparator lc sortBy = Some cmp \<longrightarrow>
            sorted_wrt (\<lambda>a b. cmp a b \<le> 0) (h' ! out) \<and>
            (sorted_wrt (\<lambda>a b. cmp a b \<le> 0) (h ! arr) \<longrightarrow> h' ! out = h ! arr)"
      using ordered by blast
    show "sortBy = ''id-asc'' \<longrightarrow> sorted_wrt (\<lambda>a b. id' a \<le> id' b) (h' ! out)"
      using ia by blast
    show "sortBy = ''id-desc'' \<longrightarrow> sorted_wrt (\<lambda>a b. id' b \<le> id' a) (h' ! out)"
      using idd by blast
    show "sortBy = ''name-asc'' \<longrightarrow> sorted_wrt (\<lambda>a b. lc (name a) (name b) \<le> 0) (h' ! out)"
      using na by blast
    show "sortBy = ''name-desc'' \<longrightarrow> sorted_wrt (\<lambda>a b. lc (name b) (name a) \<le> 0) (h' ! out)"
      using nd by blast
    show "sortBy = ''id-asc'' \<or> sortBy = ''id-desc'' \<longrightarrow>
            (\<forall>k. filter (\<lambda>d. id' d = k) (h' ! out) = filter (\<lambda>d. id' d = k) (h ! arr))"
      using si by blast
    show "sortBy = ''name-asc'' \<or> sortBy = ''name-desc'' \<longrightarrow>
            (\<forall>k. filter (\<lambda>d. name d = k) (h' ! out) = filter (\<lambda>d. name d = k) (h ! arr))"
      using sn by blast
    show "sortBy \<notin> {''id-asc'', ''id-desc'', ''name-asc'', ''name-desc''} \<longrightarrow> h' ! out = h ! arr"
      using un by blast
  qed
qed


text \<open>
  The batch of the pager. When every element is a detail as the API answers it, sorting
  the batch is \<^verbatim>\<open>sortPokemons\<close> on the details and every card is built: the round
  catches nothing after its branch. A batch with an element that \<^verbatim>\<open>buildCard\<close>
  throws on is not rendered at all.
\<close>

lemma insert_by_map:
  "insert_by (\<lambda>a b. cmp (f a) (f b)) (g x) (map g ys) =
     map g (insert_by (\<lambda>a b. cmp (f (g a)) (f (g b))) x ys)"
  by (induction ys) auto

lemma Array_sort_map:
  "Array_sort (\<lambda>a b. cmp (f a) (f b)) (map g xs) =
     map g (Array_sort (\<lambda>a b. cmp (f (g a)) (f (g b))) xs)"
  by (induction xs) (simp_all add: Array_sort_def insert_by_map)

lemma keyed_Detail: "keyed sortBy (Detail d)"
  by (simp add: keyed_def)

lemma sortPokemons_batch_details:
  "sortPokemons_batch lc io (map Detail ds) sortBy = Inr (map Detail (sortPokemons lc ds sortBy))"
  using Array_sort_map [of _ view Detail ds]
  by (simp add: sortPokemons_batch_def sortPokemons_def list_all_iff keyed_Detail split: option.splits)

lemma buildCards_renderable:
  "buildCards ps = (if list_all renderable ps then Inr (map Card ps) else Inl TypeError)"
  by (induction ps) (auto simp: buildCard_def)

lemma present_details:
  "ds \<noteq> [] \<Longrightarrow>
   present lc b io (map Detail ds) w =
     setBusy False (updateLoadMoreVisibility
       (clearSkeletons w\<lparr>grid := grid (clearSkeletons w) @
          map Card (map Detail (sortPokemons lc ds (currentSort (st w))))\<rparr>))"
  by (simp add: present_def Let_def sortPokemons_batch_details renderCards_def buildCards_renderable
        list_all_iff clearSkeletons_def)

lemma present_unrenderable:
  assumes "\<not> list_all renderable batch" "list_all (keyed (currentSort (st w))) batch"
  shows "present lc b io batch w = caught (clearSkeletons w)"
proof -
  from assms(1) have ne: "batch \<noteq> []" by auto
  show ?thesis
  proof (cases "comparator lc (currentSort (st w))")
    case None
    then show ?thesis
      using assms ne
      by (simp add: present_def Let_def sortPokemons_batch_def renderCards_def buildCards_renderable
            clearSkeletons_def)
  next
    case (Some cmp)
    have "\<not> list_all renderable (Array_sort (\<lambda>a b. cmp (view a) (view b)) batch)"
      using assms(1) mset_Array_sort [of "\<lambda>a b. cmp (view a) (view b)" batch]
      by (metis list_all_iff mset_eq_setD)
    then show ?thesis
      using assms ne Some
      by (simp add: present_def Let_def sortPokemons_batch_def renderCards_def buildCards_renderable
            clearSkeletons_def)
  qed
qed

section \<open>The theorems at concrete inputs\<close>

lemma failedFire_check:
  "(case runQueryFromControls byCodePoint fireControls offline initial of
      None \<Rightarrow> False
    | Some w \<Rightarrow> mode (st w) = TypeMode \<and> hasMore (st w) \<and> typeCursor (st w) = 0 \<and>
        typeCatalog (st w) = [] \<and> membershipRequests w = [TypeRequest ''fire''])"
  by code_simp

lemma failedFire_run: "runQueryFromControls byCodePoint fireControls offline initial = Some failedFire"
  using failedFire_check unfolding failedFire_def by (simp split: option.splits)

lemma failedFire_facts:
  "mode (st failedFire) = TypeMode" "hasMore (st failedFire)" "typeCursor (st failedFire) = 0"
  "typeCatalog (st failedFire) = []" "membershipRequests failedFire = [TypeRequest ''fire'']"
  using failedFire_check unfolding failedFire_def by (simp_all split: option.splits)




lemma overfull_check:
  "(case runQueryFromControls byCodePoint noControls overlong initial of
      None \<Rightarrow> False
    | Some w \<Rightarrow> mode (st w) = ListMode \<and> \<not> hasMore (st w) \<and> limit (st w) = 24 \<and>
        offset (st w) = 24 \<and> length (grid w) = 25)"
  by code_simp

lemma overfull_run: "runQueryFromControls byCodePoint noControls overlong initial = Some overfull"
  using overfull_check unfolding overfull_def by (simp split: option.splits)

lemma overfull_facts:
  "mode (st overfull) = ListMode" "\<not> hasMore (st overfull)" "limit (st overfull) = 24"
  "offset (st overfull) = 24" "length (grid overfull) = 25"
  using overfull_check unfolding overfull_def by (simp_all split: option.splits)

lemma overlong_batch:
  "roundBatch True overlong (submit noControls initial) = Some (map (\<lambda>n. Detail (dex n)) [1..<26])"
  by code_simp


lemma searched_check:
  "(case runQueryFromControls byCodePoint idControls found initial of
      None \<Rightarrow> False
    | Some w \<Rightarrow> mode (st w) = SearchMode \<and> \<not> hasMore (st w) \<and> moreHidden w \<and>
        grid w = [Card (Detail pikachu)] \<and> requests w = [DetailRequest ''25''])"
  by code_simp

lemma searched_run: "runQueryFromControls byCodePoint idControls found initial = Some searched"
  using searched_check unfolding searched_def by (simp split: option.splits)

lemma idControls_check:
  "mode (st (submit idControls initial)) = SearchMode \<and> currentQ (st (submit idControls initial)) = ''25''"
  by code_simp

lemma shortPage_check:
  "(case runQueryFromControls byCodePoint noControls shortList initial of
      None \<Rightarrow> False
    | Some w \<Rightarrow> \<not> hasMore (st w) \<and> moreHidden w \<and> grid w = [Card (Detail (dex 4))])"
  by code_simp

lemma shortPage_run: "loadMorePage byCodePoint True shortList (submit noControls initial) = Some shortPage"
  using shortPage_check unfolding shortPage_def runQueryFromControls_def by (simp split: option.splits)

lemma shortList_batch: "roundBatch True shortList (submit noControls initial) = Some [Detail (dex 4)]"
  by code_simp

lemma noControls_check:
  "mode (st (submit noControls initial)) = ListMode \<and> offset (st (submit noControls initial)) = 0 \<and>
   limit (st (submit noControls initial)) = 24"
  by code_simp

lemma fullPage_check:
  "(case runQueryFromControls byCodePoint noControls fullList initial of
      None \<Rightarrow> False
    | Some w \<Rightarrow> hasMore (st w) \<and> \<not> moreHidden w \<and> length (grid w) = 24 \<and>
        hd (requests w) = ListRequest 24 0)"
  by code_simp

lemma fullPage_run: "loadMorePage byCodePoint True fullList (submit noControls initial) = Some fullPage"
  using fullPage_check unfolding fullPage_def runQueryFromControls_def by (simp split: option.splits)

lemma retried_check:
  "(case runQueryFromControls byCodePoint noControls fullList initial of
      None \<Rightarrow> False
    | Some w0 \<Rightarrow>
       (case runQueryFromControls byCodePoint fireControls offline w0 of
          None \<Rightarrow> False
        | Some w \<Rightarrow> \<not> moreHidden w \<and> membershipRequests w = [TypeRequest ''fire''] \<and>
           (case loadMorePage byCodePoint False offline w of
              None \<Rightarrow> False
            | Some w' \<Rightarrow> membershipRequests w' = [TypeRequest ''fire'', TypeRequest ''fire''])))"
  by code_simp

lemma fullPage_query: "runQueryFromControls byCodePoint noControls fullList initial = Some fullPage"
  using fullPage_run by (simp add: runQueryFromControls_def)

lemma fireOffline_run: "runQueryFromControls byCodePoint fireControls offline fullPage = Some fireOffline"
  using retried_check fullPage_query unfolding fireOffline_def by (simp split: option.splits)

lemma fireOffline_facts:
  "\<not> moreHidden fireOffline" "membershipRequests fireOffline = [TypeRequest ''fire'']"
  using retried_check fullPage_query fireOffline_run by (simp_all split: option.splits)

lemma retried_run: "loadMorePage byCodePoint False offline fireOffline = Some retried"
  using retried_check fullPage_query fireOffline_run unfolding retried_def
  by (simp split: option.splits)

lemma retried_facts: "membershipRequests retried = [TypeRequest ''fire'', TypeRequest ''fire'']"
  using retried_check fullPage_query fireOffline_run retried_run by (simp split: option.splits)


lemma fullList_listed: "length (listed fullList) = 24"
  by code_simp

lemma fireFirst_check:
  "(case runQueryFromControls byCodePoint fireControls fireCatalog initial of
      None \<Rightarrow> False
    | Some w \<Rightarrow> length (typeCatalog (st w)) = 25 \<and> typeCursor (st w) = 24 \<and> hasMore (st w) \<and>
        length (grid w) = 24 \<and> limit (st w) = 24 \<and>
        (case loadMorePage byCodePoint False fireRest w of
           None \<Rightarrow> False
         | Some w' \<Rightarrow> typeCursor (st w') = 25 \<and> \<not> hasMore (st w') \<and> length (grid w') = 25 \<and>
             moreHidden w'))"
  by code_simp

lemma fireFirst_run: "runQueryFromControls byCodePoint fireControls fireCatalog initial = Some fireFirst"
  using fireFirst_check unfolding fireFirst_def by (simp split: option.splits)

lemma fireFirst_facts:
  "length (typeCatalog (st fireFirst)) = 25" "typeCursor (st fireFirst) = 24" "hasMore (st fireFirst)"
  "limit (st fireFirst) = 24"
  using fireFirst_check unfolding fireFirst_def by (simp_all split: option.splits)

lemma fireSecond_run: "loadMorePage byCodePoint False fireRest fireFirst = Some fireSecond"
  using fireFirst_check fireFirst_run unfolding fireSecond_def by (simp split: option.splits)

lemma fireSecond_facts:
  "typeCursor (st fireSecond) = 25" "\<not> hasMore (st fireSecond)" "length (grid fireSecond) = 25"
  using fireFirst_check fireFirst_run fireSecond_run by (simp_all split: option.splits)

lemma fireControls_check:
  "trim (q_value fireControls) = [] \<and> trim (typeFilter_value fireControls) = ''fire''"
  by code_simp

lemma toLowerCase_fire: "toLowerCase ''fire'' = ''fire''"
  by code_simp

theorem mode_from_filters_witness:
  "mode (st (submit idControls initial)) = SearchMode \<and>
   runQueryFromControls byCodePoint idControls found initial = Some searched \<and>
   mode (st searched) = SearchMode"
  using mode_from_filters [of idControls initial byCodePoint found] searched_run idControls_check
  by simp

lemma dot_keys:
  "trim (toLowerCase ''.'') = ''.''" "toLowerCase (trim ''.'') = ''.''"
  "trim (toLowerCase ''7'') = ''7''" "trim (toLowerCase '' x'') = ''x''"
  "toLowerCase '' x'' = '' x''" "String_nat 7 = ''7''"
  by code_simp+

lemma dot_lookup:
  "fetchDetailSafely Map.empty ''.'' (Inr (Object listingObject)) = (dotCache, None, [''.''])"
  using fetchDetailSafely_nameless [of Map.empty "''.''" listingObject]
  by (simp add: dot_keys listingObject_def dotCache_def)

lemma dot_again:
  "fetchDetailSafely dotCache ''.'' (Inl NetworkError) = (dotCache, Some listingObject, [])"
  by (rule fetchDetailSafely_hit) (simp add: dot_keys dotCache_def)

lemma padded_lookup:
  "fetchDetailSafely Map.empty ''7'' (Inr (Object (Detail padded))) =
     (paddedCache, Some (Detail padded), [''7''])"
  using fetchDetailSafely_success [of Map.empty "''7''" "Detail padded" "'' x''"]
  by (simp add: dot_keys padded_def paddedCache_def)

lemma padded_again:
  "fetchDetailSafely paddedCache (name padded) (Inl NetworkError) = (paddedCache, None, [''x''])"
proof -
  have k: "trim (toLowerCase (name padded)) = ''x''"
    by code_simp
  have "paddedCache ''x'' = None"
    by (simp add: paddedCache_def)
  then show ?thesis
    using fetchDetailSafely_failure [of paddedCache "name padded" NetworkError] by (simp add: k)
qed

lemma dot_rounds:
  "(case runQueryFromControls byCodePoint dotControls dotAnswer initial of
      None \<Rightarrow> False
    | Some w \<Rightarrow> grid w = [EmptyState] \<and> toasts w = [] \<and> requests w = [DetailRequest ''.''] \<and>
        (case runQueryFromControls byCodePoint dotControls offline w of
           None \<Rightarrow> False
         | Some w' \<Rightarrow> grid w' = [] \<and> requests w' = [DetailRequest ''.''] \<and>
             toasts w' = [ErrorToast ''Error loading data from PokeAPI.'']) \<and>
        (case runQueryFromControls byCodePoint dotFireControls offline w of
           None \<Rightarrow> False
         | Some w' \<Rightarrow> mode (st w') = SearchMode \<and> hasMore (st w') \<and>
             requests w' = [DetailRequest ''.''] \<and>
             toasts w' = [ErrorToast ''Error loading data from PokeAPI.'']))"
  by code_simp

lemma dotFirst_run: "runQueryFromControls byCodePoint dotControls dotAnswer initial = Some dotFirst"
  using dot_rounds unfolding dotFirst_def by (simp split: option.splits)

lemma dotFirst_facts:
  "grid dotFirst = [EmptyState]" "toasts dotFirst = []" "requests dotFirst = [DetailRequest ''.'']"
  using dot_rounds unfolding dotFirst_def by (simp_all split: option.splits)

lemma dotSecond_run: "runQueryFromControls byCodePoint dotControls offline dotFirst = Some dotSecond"
  using dot_rounds dotFirst_run unfolding dotSecond_def by (simp split: option.splits)

lemma dotSecond_facts:
  "grid dotSecond = []" "requests dotSecond = [DetailRequest ''.'']"
  "toasts dotSecond = [ErrorToast ''Error loading data from PokeAPI.'']"
  using dot_rounds dotFirst_run dotSecond_run by (simp_all split: option.splits)

lemma dotTyped_run: "runQueryFromControls byCodePoint dotFireControls offline dotFirst = Some dotTyped"
  using dot_rounds dotFirst_run unfolding dotTyped_def by (simp split: option.splits)

lemma dotTyped_facts:
  "mode (st dotTyped) = SearchMode" "hasMore (st dotTyped)"
  "toasts dotTyped = [ErrorToast ''Error loading data from PokeAPI.'']"
  using dot_rounds dotFirst_run dotTyped_run by (simp_all split: option.splits)

lemma barePage_check:
  "(case runQueryFromControls byCodePoint noControls bareList initial of
      None \<Rightarrow> False
    | Some w \<Rightarrow> \<not> hasMore (st w) \<and> offset (st w) = 24 \<and> grid w = [] \<and> \<not> moreHidden w \<and>
        toasts w = [ErrorToast ''Error loading data from PokeAPI.''] \<and>
        requests w = [ListRequest 24 0, DetailRequest ''mon4''])"
  by code_simp

lemma barePage_run: "loadMorePage byCodePoint True bareList (submit noControls initial) = Some barePage"
  using barePage_check unfolding barePage_def runQueryFromControls_def by (simp split: option.splits)

lemma barePage_facts:
  "\<not> hasMore (st barePage)" "offset (st barePage) = 24" "grid barePage = []"
  "toasts barePage = [ErrorToast ''Error loading data from PokeAPI.'']"
  using barePage_check unfolding barePage_def by (simp_all split: option.splits)

lemma bareList_batch: "roundBatch True bareList (submit noControls initial) = Some [bare]"
  by code_simp

text \<open>
  The theorem at two rounds of list mode whose listing has one entry. In the first the
  detail is rendered. In the second the detail comes without abilities and stats: the
  card builder throws after the branch has advanced the offset and cleared
  \<^verbatim>\<open>hasMore\<close>, and the round ends in the \<^verbatim>\<open>catch\<close>.
\<close>

theorem hasMore_after_round_witness:
  "loadMorePage byCodePoint True shortList (submit noControls initial) = Some shortPage \<and>
   roundBatch True shortList (submit noControls initial) = Some [Detail (dex 4)] \<and>
   mode (st (submit noControls initial)) = ListMode \<and>
   hasMore (st shortPage) = (length [Detail (dex 4)] = limit (st (submit noControls initial))) \<and>
   \<not> hasMore (st shortPage) \<and>
   loadMorePage byCodePoint True bareList (submit noControls initial) = Some barePage \<and>
   roundBatch True bareList (submit noControls initial) = Some [bare] \<and>
   hasMore (st barePage) = (length [bare] = limit (st (submit noControls initial))) \<and>
   \<not> hasMore (st barePage) \<and> offset (st barePage) = 24 \<and>
   toasts barePage = [ErrorToast ''Error loading data from PokeAPI.'']"
  using hasMore_after_round [OF shortPage_run shortList_batch]
    hasMore_after_round [OF barePage_run bareList_batch]
    shortPage_run shortList_batch barePage_run bareList_batch barePage_facts noControls_check
  by simp

text \<open>
  Against C4 as stated. A category is submitted without network: the membership request
  fails, the branch throws, and \<^verbatim>\<open>hasMore\<close> is still true although the cursor is not
  before the end of the catalog. A listing of 25 entries, all resolved, leaves
  \<^verbatim>\<open>hasMore\<close> false although the round returned no fewer than 24. And after the
  search text \<^verbatim>\<open>.\<close> has put the listing object of the API into the cache, the same
  search with a category selected throws at the check of the types, which the object does
  not have: the round is a search and \<^verbatim>\<open>hasMore\<close> is true after it.
\<close>

theorem hasMore_not_exhaustion:
  "runQueryFromControls byCodePoint fireControls offline initial = Some failedFire \<and>
   mode (st failedFire) = TypeMode \<and> hasMore (st failedFire) \<and>
   \<not> typeCursor (st failedFire) < length (typeCatalog (st failedFire)) \<and>
   runQueryFromControls byCodePoint noControls overlong initial = Some overfull \<and>
   mode (st overfull) = ListMode \<and> \<not> hasMore (st overfull) \<and>
   roundBatch True overlong (submit noControls initial) = Some (map (\<lambda>n. Detail (dex n)) [1..<26]) \<and>
   \<not> length (map (\<lambda>n. Detail (dex n)) [1..<26]) < limit (st overfull) \<and>
   runQueryFromControls byCodePoint dotControls dotAnswer initial = Some dotFirst \<and>
   runQueryFromControls byCodePoint dotFireControls offline dotFirst = Some dotTyped \<and>
   mode (st dotTyped) = SearchMode \<and> hasMore (st dotTyped)"
  using failedFire_run failedFire_facts overfull_run overfull_facts overlong_batch
    dotFirst_run dotTyped_run dotTyped_facts
  by simp



theorem category_catalog_fetched_once_witness:
  "trim (q_value fireControls) = [] \<and> trim (typeFilter_value fireControls) = ''fire'' \<and>
   runQueryFromControls byCodePoint fireControls fireCatalog initial = Some fireFirst \<and>
   length (typeCatalog (st fireFirst)) = 25 \<and>
   loadMores byCodePoint [] fireFirst = Some fireFirst \<and>
   loadMorePage byCodePoint False fireRest fireFirst = Some fireSecond \<and>
   membershipRequests fireFirst = [TypeRequest ''fire''] \<and>
   membershipRequests fireSecond = [TypeRequest ''fire''] \<and>
   typeCatalog (st fireSecond) = typeCatalog (st fireFirst) \<and>
   typeCursor (st fireFirst) = 24 \<and> typeCursor (st fireSecond) = 25 \<and> \<not> hasMore (st fireSecond)"
proof -
  have a: "trim (q_value fireControls) = []" and b: "trim (typeFilter_value fireControls) \<noteq> []"
    using fireControls_check by simp_all
  have ne: "typeCatalog (st fireFirst) \<noteq> []"
    using fireFirst_facts(1) by auto
  have i: "membershipRequests initial = []"
    by (simp add: membershipRequests_def initial_def)
  note t = category_catalog_fetched_once [OF a b fireFirst_run]
  have "membershipRequests fireFirst = [TypeRequest ''fire'']"
    using t fireControls_check toLowerCase_fire i by simp
  moreover have "membershipRequests fireSecond = membershipRequests fireFirst \<and>
      typeCatalog (st fireSecond) = typeCatalog (st fireFirst)"
    using t ne fireSecond_run by (metis loadMores.simps(1))
  ultimately show ?thesis
    using fireControls_check fireFirst_run fireFirst_facts fireSecond_run fireSecond_facts
    by simp
qed

text \<open>
  Against C6 as stated. A full first page of the listing shows the load-more button. A
  category is then submitted without network: its membership request fails, no catalog is
  stored and the button stays shown. The next load-more requests the membership again.
\<close>

theorem category_catalog_requested_again:
  "loadMorePage byCodePoint True fullList (submit noControls initial) = Some fullPage \<and>
   \<not> moreHidden fullPage \<and>
   runQueryFromControls byCodePoint fireControls offline fullPage = Some fireOffline \<and>
   membershipRequests fireOffline = [TypeRequest ''fire''] \<and> \<not> moreHidden fireOffline \<and>
   loadMorePage byCodePoint False offline fireOffline = Some retried \<and>
   membershipRequests retried = [TypeRequest ''fire'', TypeRequest ''fire'']"
  using fullPage_run fullPage_check fullPage_query fireOffline_run fireOffline_facts
    retried_run retried_facts
  by (simp split: option.splits)

lemma pikachu_keys:
  "trim (toLowerCase '' Pikachu '') = ''pikachu''" "trim (toLowerCase ''pikachu'') = ''pikachu''"
  "String_nat 25 = ''25''" "toLowerCase ''pikachu'' = ''pikachu''"
  "trim (toLowerCase ''PIKACHU'') = ''pikachu''" "toLowerCase (trim '' Pikachu '') = ''pikachu''"
  "trim ''pikachu'' = ''pikachu''"
  by code_simp+

lemma pikachuCache_eq:
  "Map.empty(''pikachu'' \<mapsto> Some (Detail pikachu), String_nat (id' pikachu) \<mapsto> Some (Detail pikachu),
             toLowerCase (name pikachu) \<mapsto> Some (Detail pikachu)) = pikachuCache"
  by (simp add: pikachuCache_def pikachu_def pikachu_keys fun_upd_twist)

lemma pikachu_aliases:
  "fetchDetailSafely Map.empty '' Pikachu '' (Inl (HttpError 404)) = (Map.empty, None, [''pikachu'']) \<and>
   fetchDetailSafely Map.empty '' Pikachu '' (Inr (Object (Detail pikachu))) =
     (pikachuCache, Some (Detail pikachu), [''pikachu'']) \<and>
   dom pikachuCache = {''pikachu'', ''25''} \<and>
   fetchDetailSafely pikachuCache ''25'' (Inl NetworkError) = (pikachuCache, Some (Detail pikachu), []) \<and>
   fetchDetailSafely pikachuCache ''PIKACHU'' (Inl NetworkError) = (pikachuCache, Some (Detail pikachu), [])"
proof -
  have k: "''pikachu'' = trim (toLowerCase '' Pikachu '')"
    by (simp add: pikachu_keys)
  have c: "pikachuCache = Map.empty(''pikachu'' \<mapsto> Some (Detail pikachu),
             String_nat (id' pikachu) \<mapsto> Some (Detail pikachu),
             toLowerCase (name pikachu) \<mapsto> Some (Detail pikachu))"
    by (simp add: pikachuCache_eq)
  have i: "id' pikachu < 10 ^ 21"
    by (simp add: pikachu_def)
  note t = fetchDetailSafely_of_detail [OF k i c, of "HttpError 404" "Inl NetworkError"]
  have n: "String_nat (id' pikachu) = ''25''" "toLowerCase (name pikachu) = ''pikachu''"
    by (simp_all add: pikachu_def pikachu_keys)
  have "fetchDetailSafely pikachuCache ''PIKACHU'' (Inl NetworkError) = (pikachuCache, Some (Detail pikachu), [])"
    using t pikachu_keys(5) by blast
  moreover have "fetchDetailSafely pikachuCache ''25'' (Inl NetworkError) = (pikachuCache, Some (Detail pikachu), [])"
    using t n by simp
  moreover have "dom pikachuCache = {''pikachu'', ''25''}"
    using t n by auto
  ultimately show ?thesis
    using t pikachu_keys by simp
qed

text \<open>
  C7, against the code. The search text \<^verbatim>\<open>.\<close> is requested, and the API answers ok
  with its listing object, which has no name. \<^verbatim>\<open>fetchDetailSafely\<close> returns null, as
  for any failure, but it has stored the object in the cache before failing, under the
  key and under \<^verbatim>\<open>'undefined'\<close>: the two \<^verbatim>\<open>cache.set\<close> of lines 188-189 ran before
  \<^verbatim>\<open>data.name.toLowerCase()\<close> threw. A later call with the same key makes no request
  and returns the stored object, which is neither a detail nor null. On the page, the
  first search of \<^verbatim>\<open>.\<close> shows the empty state and the second, which requests nothing,
  the error toast, of the card builder throwing on the object. Also, a detail whose name
  has white space in front is stored under that name as it is, while a later call
  trims its argument: the call with the name misses the cache and makes a request.
\<close>

theorem fetchDetailSafely_stores_before_failing:
  "fetchDetailSafely Map.empty ''.'' (Inr (Object listingObject)) = (dotCache, None, [''.'']) \<and>
   dom dotCache = {''.'', ''undefined''} \<and> dotCache ''.'' = Some (Some listingObject) \<and>
   fetchDetailSafely dotCache ''.'' (Inl NetworkError) = (dotCache, Some listingObject, []) \<and>
   nameOf listingObject = None \<and> idOf listingObject = None \<and>
   runQueryFromControls byCodePoint dotControls dotAnswer initial = Some dotFirst \<and>
   grid dotFirst = [EmptyState] \<and> toasts dotFirst = [] \<and> requests dotFirst = [DetailRequest ''.''] \<and>
   runQueryFromControls byCodePoint dotControls offline dotFirst = Some dotSecond \<and>
   grid dotSecond = [] \<and> requests dotSecond = [DetailRequest ''.''] \<and>
   toasts dotSecond = [ErrorToast ''Error loading data from PokeAPI.''] \<and>
   fetchDetailSafely Map.empty ''7'' (Inr (Object (Detail padded))) =
     (paddedCache, Some (Detail padded), [''7'']) \<and>
   fetchDetailSafely paddedCache (name padded) (Inl NetworkError) = (paddedCache, None, [''x''])"
  using dot_lookup dot_again dotFirst_run dotFirst_facts dotSecond_run dotSecond_facts
    padded_lookup padded_again
  by (auto simp: dotCache_def listingObject_def)

lemma sort_demo:
  "sortPokemons_store byCodePoint [[pikachu, charmander]] 0 ''name-asc'' =
     ([[pikachu, charmander], [charmander, pikachu]], 1)"
  by code_simp

theorem sortPokemons_pure_and_ordered_witness:
  "(0::nat) < length [[pikachu, charmander]] \<and> consistent byCodePoint \<and>
   sortPokemons_store byCodePoint [[pikachu, charmander]] 0 ''name-asc'' =
     ([[pikachu, charmander], [charmander, pikachu]], 1) \<and>
   [[pikachu, charmander], [charmander, pikachu]] ! 0 = [[pikachu, charmander]] ! 0 \<and>
   sorted_wrt (\<lambda>a b. byCodePoint (name a) (name b) \<le> 0)
     ([[pikachu, charmander], [charmander, pikachu]] ! 1)"
proof -
  have a: "(0::nat) < length [[pikachu, charmander]]"
    by simp
  note t = sortPokemons_pure_and_ordered [of 0 "[[pikachu, charmander]]" "''name-asc''" byCodePoint
      "[[pikachu, charmander], [charmander, pikachu]]" 1, OF a consistent_byCodePoint sort_demo]
  have "[[pikachu, charmander], [charmander, pikachu]] ! 0 = [[pikachu, charmander]] ! 0"
    using t by (elim conjE) assumption
  moreover have "''name-asc'' = ''name-asc'' \<longrightarrow>
      sorted_wrt (\<lambda>a b. byCodePoint (name a) (name b) \<le> 0)
        ([[pikachu, charmander], [charmander, pikachu]] ! 1)"
    using t by (elim conjE) assumption
  ultimately show ?thesis
    using a consistent_byCodePoint sort_demo by blast
qed






end
